theory Spec2Isabelle
  imports Main "HOL-Library.Word" "HOL-Library.AList"
begin

unbundle bit_operations_syntax

section \<open>Machine types and kernel ABI constants\<close>

type_synonym u8 = "8 word"
type_synonym u16 = "16 word"
type_synonym u64 = "64 word"

text \<open>
  The event types and codes below are the values of \<^verbatim>\<open>linux/input-event-codes.h\<close> and
  \<^verbatim>\<open>linux/gpio.h\<close>, which \<^verbatim>\<open>gpio_to_uinput.cpp\<close> includes. C \<^verbatim>\<open>int\<close> values
  (event codes, scaled axis values, file descriptors) are \<open>int\<close>: none of the arithmetic
  on them leaves the 32-bit range. Line offsets, pins and bit indices (\<^verbatim>\<open>uint32_t\<close>) are
  \<open>nat\<close>: the code only compares them and computes \<^verbatim>\<open>pin - 2\<close> under the guard
  \<^verbatim>\<open>pin >= 2\<close> and \<^verbatim>\<open>bit + 2\<close> for \<^verbatim>\<open>bit < 12\<close>.
\<close>

definition EV_SYN :: u16 where "EV_SYN = 0"
definition EV_KEY :: u16 where "EV_KEY = 1"
definition EV_ABS :: u16 where "EV_ABS = 3"
definition SYN_REPORT :: u16 where "SYN_REPORT = 0"
definition ABS_HAT0X :: u16 where "ABS_HAT0X = 16"
definition ABS_HAT0Y :: u16 where "ABS_HAT0Y = 17"

section \<open>Actions\<close>

datatype DeviceKind = Gamepad | Keyboard
datatype ActionType = ButtonOrKey | HatDir
datatype HatDir = Up | Down | Left | Right

record Action =
  type :: ActionType
  dev :: DeviceKind
  code :: int
  hat_dir :: HatDir
  token :: string

section \<open>Hat state\<close>

text \<open>
  Lines 966--969 of \<^verbatim>\<open>recompute_hat\<close>: the two components computed from the four
  press-states, each clamped with \<^verbatim>\<open>std::max(-1, std::min(1, .))\<close>.
\<close>

definition hat_vector :: "bool \<Rightarrow> bool \<Rightarrow> bool \<Rightarrow> bool \<Rightarrow> int \<times> int" where
  "hat_vector hat_up hat_down hat_left hat_right =
     (max (- 1) (min 1 ((if hat_right then 1 else 0) + (if hat_left then - 1 else 0))),
      max (- 1) (min 1 ((if hat_down then 1 else 0) + (if hat_up then - 1 else 0))))"

section \<open>Virtual device emission\<close>

text \<open>
  The process talks to the outside through writes to the uinput devices, lines on
  standard output and warnings on standard error. A run of a handler returns the list of
  these outputs in order. \<^verbatim>\<open>uinput_emit\<close> calls \<^verbatim>\<open>die\<close> when the write is short:
  whether the device behind a descriptor takes the write is a parameter of the
  environment (\<open>uinput_writable\<close>), and a handler that dies returns \<open>Inl\<close>.
  \<^verbatim>\<open>clock_gettime(CLOCK_MONOTONIC)\<close> is taken to succeed.
\<close>

datatype Origin =
    GpioOrigin nat string  \<comment> \<open>\<^verbatim>\<open>"offset=" + off + " name=" + nm\<close>\<close>
  | I2cPinOrigin nat       \<comment> \<open>\<^verbatim>\<open>"i2c_pin=D" + pin\<close>\<close>

datatype LogDetail = HatXY int int | DevCode DeviceKind int

datatype Output =
    UinputWrite int u16 u16 int
      \<comment> \<open>one \<^verbatim>\<open>input_event\<close> written: descriptor, type, code, value\<close>
  | Transition u64 Origin string bool LogDetail
      \<comment> \<open>the stdout line of \<^verbatim>\<open>emit_action\<close>: time, origin, token, DOWN (True) or UP\<close>
  | Unmapped u64 Origin bool
      \<comment> \<open>the stdout line for a changed peripheral bit that has no binding\<close>
  | WarnReadFailed int
  | LogRaw "u16 list" u16
  | LogAxes "(string \<times> u16 \<times> u16 \<times> u16 \<times> u16 \<times> int) list"

text \<open>
  \<open>Die msg\<close> is a call \<^verbatim>\<open>die(msg)\<close>: the process prints \<^verbatim>\<open>ERROR: msg\<close> followed by
  the value and text of \<^verbatim>\<open>errno\<close> on standard error and exits with status 1.
\<close>

datatype Fatal = Die string

type_synonym 'a res = "Fatal + 'a"

record WatchedLine =
  req_fd :: int
  line_offset :: nat  \<comment> \<open>the field \<^verbatim>\<open>offset\<close> of \<^verbatim>\<open>WatchedLine\<close>\<close>
  name :: string

record Env =
  ufd_gamepad :: int
  ufd_keyboard :: int
  need_hat :: bool
  active_low :: bool
  debounce_ns :: u64
  gpio_map :: "(nat \<times> Action) list"
  watched :: "WatchedLine list"
  i2c_log_samples :: bool
  uinput_writable :: "int \<Rightarrow> bool"

definition seq_out :: "Output list res \<Rightarrow> Output list res \<Rightarrow> Output list res" where
  "seq_out a b =
     (case a of Inl e \<Rightarrow> Inl e
      | Inr o1 \<Rightarrow> (case b of Inl e \<Rightarrow> Inl e | Inr o2 \<Rightarrow> Inr (o1 @ o2)))"

definition uinput_emit :: "Env \<Rightarrow> int \<Rightarrow> u16 \<Rightarrow> u16 \<Rightarrow> int \<Rightarrow> Output list res" where
  "uinput_emit E ufd ty c v =
     (if uinput_writable E ufd then Inr [UinputWrite ufd ty c v]
      else Inl (Die ''write(uinput event)''))"

definition uinput_syn :: "Env \<Rightarrow> int \<Rightarrow> Output list res" where
  "uinput_syn E ufd = uinput_emit E ufd EV_SYN SYN_REPORT 0"

definition uinput_key :: "Env \<Rightarrow> int \<Rightarrow> int \<Rightarrow> bool \<Rightarrow> Output list res" where
  "uinput_key E ufd c down =
     seq_out (uinput_emit E ufd EV_KEY (word_of_int c) (if down then 1 else 0)) (uinput_syn E ufd)"

definition uinput_abs :: "Env \<Rightarrow> int \<Rightarrow> u16 \<Rightarrow> int \<Rightarrow> Output list res" where
  "uinput_abs E ufd c v = uinput_emit E ufd EV_ABS c v"

section \<open>Peripheral poller state\<close>

record I2cButtonBinding =
  pin :: nat
  action :: Action

record I2cAnalogAxisState =
  raw_index :: nat
  label :: string
  abs_code :: u16
  min_seen :: u16
  max_seen :: u16
  initialized :: bool
  last_scaled :: int

text \<open>
  \<^verbatim>\<open>I2cState\<close> without the descriptor and the two scheduling fields of the event loop
  (\<^verbatim>\<open>interval_ns\<close>, \<^verbatim>\<open>next_poll_ns\<close>), which \<^verbatim>\<open>handle_i2c\<close> does not touch. The
  \<^verbatim>\<open>unordered_map\<close>s of the program are association lists: \<open>map_of\<close> is \<^verbatim>\<open>find\<close>,
  \<open>AList.update\<close> is \<^verbatim>\<open>m[k] = v\<close>, the empty list is \<^verbatim>\<open>empty()\<close>.
\<close>

record I2cState =
  enabled :: bool
  last_mask :: u16
  have_mask :: bool
  read_error_logged :: bool
  button_bits :: "(nat \<times> I2cButtonBinding) list"
  analogs :: "I2cAnalogAxisState list"

section \<open>Event-loop state, hat recomputation and action emission\<close>

record LoopState =
  last_accept_ns :: "nat \<rightharpoonup> u64"
  hat_up :: bool
  hat_down :: bool
  hat_left :: bool
  hat_right :: bool
  last_hat_x :: int
  last_hat_y :: int
  i2c_state :: I2cState

definition recompute_hat :: "Env \<Rightarrow> LoopState \<Rightarrow> (LoopState \<times> Output list) res" where
  "recompute_hat E st =
     (if ufd_gamepad E < 0 \<or> \<not> need_hat E then Inr (st, [])
      else
        let x = fst (hat_vector (hat_up st) (hat_down st) (hat_left st) (hat_right st));
            y = snd (hat_vector (hat_up st) (hat_down st) (hat_left st) (hat_right st))
        in if x \<noteq> last_hat_x st \<or> y \<noteq> last_hat_y st then
             (case seq_out (uinput_abs E (ufd_gamepad E) ABS_HAT0X x)
                     (seq_out (uinput_abs E (ufd_gamepad E) ABS_HAT0Y y)
                        (uinput_syn E (ufd_gamepad E))) of
                Inl e \<Rightarrow> Inl e
              | Inr out \<Rightarrow> Inr (st\<lparr>last_hat_x := x, last_hat_y := y\<rparr>, out))
           else Inr (st, []))"

definition set_hat_dir :: "HatDir \<Rightarrow> bool \<Rightarrow> LoopState \<Rightarrow> LoopState" where
  "set_hat_dir d press st =
     (case d of
        Up \<Rightarrow> st\<lparr>hat_up := press\<rparr>
      | Down \<Rightarrow> st\<lparr>hat_down := press\<rparr>
      | Left \<Rightarrow> st\<lparr>hat_left := press\<rparr>
      | Right \<Rightarrow> st\<lparr>hat_right := press\<rparr>)"

definition emit_action ::
  "Env \<Rightarrow> Action \<Rightarrow> bool \<Rightarrow> u64 \<Rightarrow> Origin \<Rightarrow> LoopState \<Rightarrow> (LoopState \<times> Output list) res" where
  "emit_action E act press ts origin st =
     (case (if type act = HatDir then recompute_hat E (set_hat_dir (hat_dir act) press st)
            else
              let outfd = (if dev act = Gamepad then ufd_gamepad E else ufd_keyboard E)
              in if outfd \<ge> 0 then
                   (case uinput_key E outfd (code act) press of
                      Inl e \<Rightarrow> Inl e | Inr out \<Rightarrow> Inr (st, out))
                 else Inr (st, [])) of
        Inl e \<Rightarrow> Inl e
      | Inr (st', out) \<Rightarrow>
          Inr (st', out @ [Transition ts origin (token act) press
                 (if type act = HatDir then HatXY (last_hat_x st') (last_hat_y st')
                  else DevCode (dev act) (code act))]))"

section \<open>GPIO path: edge classification and userspace debounce\<close>

record gpio_v2_line_event =
  timestamp_ns :: u64
  id_kind :: "32 word"  \<comment> \<open>the field \<^verbatim>\<open>id\<close>\<close>
  offset :: nat

definition GPIO_V2_LINE_EVENT_RISING_EDGE :: "32 word" where
  "GPIO_V2_LINE_EVENT_RISING_EDGE = 1"
definition GPIO_V2_LINE_EVENT_FALLING_EDGE :: "32 word" where
  "GPIO_V2_LINE_EVENT_FALLING_EDGE = 2"

text \<open>
  Lines 1180--1184: the event is dropped when the window is positive, the line has a
  record, and the event is not earlier than the record and less than a window after it.
\<close>

definition debounce_drop :: "u64 \<Rightarrow> u64 option \<Rightarrow> u64 \<Rightarrow> bool" where
  "debounce_drop w lt ts =
     (w > 0 \<and> (case lt of None \<Rightarrow> False | Some l \<Rightarrow> ts \<ge> l \<and> ts - l < w))"

fun line_name :: "WatchedLine list \<Rightarrow> nat \<Rightarrow> string" where
  "line_name [] off = ''-''"
| "line_name (L # Ls) off =
     (if line_offset L = off \<and> name L \<noteq> [] then name L else line_name Ls off)"

definition handle_gpio_event ::
  "Env \<Rightarrow> gpio_v2_line_event \<Rightarrow> LoopState \<Rightarrow> (LoopState \<times> Output list) res" where
  "handle_gpio_event E e st =
     (case map_of (gpio_map E) (offset e) of
        None \<Rightarrow> Inr (st, [])
      | Some act \<Rightarrow>
          let is_rising = (id_kind e = GPIO_V2_LINE_EVENT_RISING_EDGE);
              is_falling = (id_kind e = GPIO_V2_LINE_EVENT_FALLING_EDGE)
          in if \<not> is_rising \<and> \<not> is_falling then Inr (st, [])
             else if debounce_drop (debounce_ns E) (last_accept_ns st (offset e)) (timestamp_ns e)
             then Inr (st, [])
             else emit_action E act (if active_low E then is_falling else is_rising)
                    (timestamp_ns e) (GpioOrigin (offset e) (line_name (watched E) (offset e)))
                    (st\<lparr>last_accept_ns := (last_accept_ns st)(offset e \<mapsto> timestamp_ns e)\<rparr>))"

text \<open>The events of the drained buffers, handled in order; a fatal write ends the run.\<close>

fun handle_gpio_events ::
  "Env \<Rightarrow> gpio_v2_line_event list \<Rightarrow> LoopState \<Rightarrow> (LoopState \<times> Output list) res" where
  "handle_gpio_events E [] st = Inr (st, [])"
| "handle_gpio_events E (e # es) st =
     (case handle_gpio_event E e st of
        Inl err \<Rightarrow> Inl err
      | Inr (st', o1) \<Rightarrow>
          (case handle_gpio_events E es st' of
             Inl err \<Rightarrow> Inl err
           | Inr (st'', o2) \<Rightarrow> Inr (st'', o1 @ o2)))"

section \<open>Peripheral path: frame decoding, analog auto-calibration, bitmask diff\<close>

definition kI2cAnalogValueCount :: nat where "kI2cAnalogValueCount = 5"
definition kI2cFrameBytes :: nat where "kI2cFrameBytes = (kI2cAnalogValueCount + 1) * 2"
definition kI2cAnalogAdcMax :: u16 where "kI2cAnalogAdcMax = 1023"
definition kI2cAnalogInitialSpan :: u16 where "kI2cAnalogInitialSpan = 512"
definition kI2cAnalogMinSpan :: u16 where "kI2cAnalogMinSpan = 32"

text \<open>\<^verbatim>\<open>get_u16_le(p)\<close>, the pointer being the rest of the buffer from that byte on.\<close>

definition get_u16_le :: "u8 list \<Rightarrow> u16" where
  "get_u16_le p = ucast (p ! 0) OR push_bit 8 (ucast (p ! 1))"

text \<open>
  Lines 1052--1069: the seeding of the window on the first sample, then the widening.
  The \<^verbatim>\<open>uint16_t\<close> casts of the source are the wrap-around of \<open>16 word\<close>.
\<close>

definition calibrate :: "I2cAnalogAxisState \<Rightarrow> u16 \<Rightarrow> I2cAnalogAxisState" where
  "calibrate axis sample =
     (let axis1 =
        (if \<not> initialized axis then
           let half = kI2cAnalogInitialSpan div 2;
               min_seed0 = (if sample > half then sample - half else 0);
               max_seed0 = min_seed0 + kI2cAnalogInitialSpan;
               over = (max_seed0 > kI2cAnalogAdcMax);
               max_seed1 = (if over then kI2cAnalogAdcMax else max_seed0);
               min_seed = (if over then
                             (if max_seed1 > kI2cAnalogInitialSpan
                              then max_seed1 - kI2cAnalogInitialSpan else 0)
                           else min_seed0);
               max_seed = (if max_seed1 < sample then sample else max_seed1)
           in axis\<lparr>min_seen := min_seed,
                    max_seen := max (min_seed + kI2cAnalogMinSpan) max_seed,
                    initialized := True\<rparr>
         else axis);
          axis2 = (if sample < min_seen axis1 then axis1\<lparr>min_seen := sample\<rparr> else axis1)
      in (if sample > max_seen axis2 then axis2\<lparr>max_seen := sample\<rparr> else axis2))"

text \<open>
  \<^verbatim>\<open>std::clamp<int>(v, lo, hi)\<close> (defined when \<open>lo \<le> hi\<close>) and the division of C++,
  which truncates towards zero.
\<close>

definition clamp_int :: "int \<Rightarrow> int \<Rightarrow> int \<Rightarrow> int" where
  "clamp_int v lo hi = (if v < lo then lo else if hi < v then hi else v)"

definition c_div :: "int \<Rightarrow> int \<Rightarrow> int" where
  "c_div a b = sgn a * sgn b * (\<bar>a\<bar> div \<bar>b\<bar>)"

text \<open>Lines 1071--1074: the span used as denominator.\<close>

definition analog_span :: "u16 \<Rightarrow> u16 \<Rightarrow> u16" where
  "analog_span mn mx =
     (let span = (if mx > mn then mx - mn else 0)
      in if span < kI2cAnalogMinSpan then kI2cAnalogMinSpan else span)"

text \<open>Lines 1076--1079: the scaled value of a sample for the bounds \<open>mn\<close>, \<open>mx\<close>.\<close>

definition analog_scale :: "u16 \<Rightarrow> u16 \<Rightarrow> u16 \<Rightarrow> int" where
  "analog_scale mn mx sample =
     (let clamped = clamp_int (uint sample) (uint mn) (uint mx);
          scaled = c_div ((clamped - uint mn) * 100) (uint (analog_span mn mx))
      in if scaled < 0 then 0 else if scaled > 100 then 100 else scaled)"

text \<open>
  The body of the loop over the axes (lines 1048--1099): the new axis state, the writes
  and whether the axis changed.
\<close>

definition axis_step ::
  "Env \<Rightarrow> u16 list \<Rightarrow> I2cAnalogAxisState \<Rightarrow> (I2cAnalogAxisState \<times> Output list \<times> bool) res" where
  "axis_step E raw axis =
     (if raw_index axis \<ge> kI2cAnalogValueCount then Inr (axis, [], False)
      else
        let sample = raw ! raw_index axis;
            a = calibrate axis sample;
            scaled = analog_scale (min_seen a) (max_seen a) sample
        in if scaled \<noteq> last_scaled a then
             (case uinput_abs E (ufd_gamepad E) (abs_code a) scaled of
                Inl e \<Rightarrow> Inl e
              | Inr out \<Rightarrow> Inr (a\<lparr>last_scaled := scaled\<rparr>, out, True))
           else Inr (a, [], False))"

fun analog_pass ::
  "Env \<Rightarrow> u16 list \<Rightarrow> I2cAnalogAxisState list \<Rightarrow>
     (I2cAnalogAxisState list \<times> Output list \<times> bool) res" where
  "analog_pass E raw [] = Inr ([], [], False)"
| "analog_pass E raw (a # as) =
     (case axis_step E raw a of
        Inl e \<Rightarrow> Inl e
      | Inr (a', o1, c1) \<Rightarrow>
          (case analog_pass E raw as of
             Inl e \<Rightarrow> Inl e
           | Inr (as', o2, c2) \<Rightarrow> Inr (a' # as', o1 @ o2, c1 \<or> c2)))"

text \<open>The entry of \<^verbatim>\<open>analog_log\<close> for an axis after its step.\<close>

definition axis_log :: "u16 list \<Rightarrow> I2cAnalogAxisState \<Rightarrow> string \<times> u16 \<times> u16 \<times> u16 \<times> u16 \<times> int" where
  "axis_log raw a =
     (label a, raw ! raw_index a, min_seen a, max_seen a,
      analog_span (min_seen a) (max_seen a), last_scaled a)"

definition analog_section ::
  "Env \<Rightarrow> u16 list \<Rightarrow> I2cAnalogAxisState list \<Rightarrow> (I2cAnalogAxisState list \<times> Output list) res" where
  "analog_section E raw axes =
     (if axes \<noteq> [] \<and> ufd_gamepad E \<ge> 0 then
        (case analog_pass E raw axes of
           Inl e \<Rightarrow> Inl e
         | Inr (axes', out, analog_changed) \<Rightarrow>
             (case (if analog_changed then uinput_syn E (ufd_gamepad E) else Inr []) of
                Inl e \<Rightarrow> Inl e
              | Inr syn \<Rightarrow>
                  let logged = filter (\<lambda>a. raw_index a < kI2cAnalogValueCount) axes'
                  in Inr (axes', out @ syn @
                       (if i2c_log_samples E \<and> logged \<noteq> []
                        then [LogAxes (map (axis_log raw) logged)] else []))))
      else Inr (axes, []))"

text \<open>
  The body of the loop over the twelve bits (lines 1115--1131). \<open>clk b\<close> is the reading of
  the monotonic clock taken when bit \<open>b\<close> is handled.
\<close>

definition i2c_bit_step ::
  "Env \<Rightarrow> (nat \<Rightarrow> u64) \<Rightarrow> u16 \<Rightarrow> u16 \<Rightarrow> nat \<Rightarrow> LoopState \<Rightarrow> (LoopState \<times> Output list) res" where
  "i2c_bit_step E clk dmask changed b st =
     (if \<not> bit changed b then Inr (st, [])
      else
        let level_high = bit dmask b;
            press = (if active_low E then \<not> level_high else level_high);
            ts = clk b;
            origin = I2cPinOrigin (b + 2)
        in (case map_of (button_bits (i2c_state st)) b of
              None \<Rightarrow> Inr (st, [Unmapped ts origin press])
            | Some binding \<Rightarrow> emit_action E (action binding) press ts origin st))"

fun i2c_bits ::
  "Env \<Rightarrow> (nat \<Rightarrow> u64) \<Rightarrow> u16 \<Rightarrow> u16 \<Rightarrow> nat list \<Rightarrow> LoopState \<Rightarrow> (LoopState \<times> Output list) res" where
  "i2c_bits E clk dmask changed [] st = Inr (st, [])"
| "i2c_bits E clk dmask changed (b # bs) st =
     (case i2c_bit_step E clk dmask changed b st of
        Inl e \<Rightarrow> Inl e
      | Inr (st', o1) \<Rightarrow>
          (case i2c_bits E clk dmask changed bs st' of
             Inl e \<Rightarrow> Inl e
           | Inr (st'', o2) \<Rightarrow> Inr (st'', o1 @ o2)))"

text \<open>Lines 1111--1132: the diff against the previous mask and the transitions.\<close>

definition digital_section ::
  "Env \<Rightarrow> (nat \<Rightarrow> u64) \<Rightarrow> u16 \<Rightarrow> LoopState \<Rightarrow> (LoopState \<times> Output list) res" where
  "digital_section E clk dmask st =
     (let changed = (if have_mask (i2c_state st) then dmask XOR last_mask (i2c_state st) else 0);
          st1 = st\<lparr>i2c_state := (i2c_state st)\<lparr>last_mask := dmask, have_mask := True\<rparr>\<rparr>
      in if changed \<noteq> 0 then i2c_bits E clk dmask changed [0..<12] st1 else Inr (st1, []))"

text \<open>Lines 1030--1033: the analog samples and the digital bitmask of a frame.\<close>

definition frame_samples :: "u8 list \<Rightarrow> u16 list" where
  "frame_samples buf = map (\<lambda>i. get_u16_le (drop (i * 2) buf)) [0..<kI2cAnalogValueCount]"

definition frame_mask :: "u8 list \<Rightarrow> u16" where
  "frame_mask buf = get_u16_le (drop (kI2cAnalogValueCount * 2) buf)"

text \<open>
  \<^verbatim>\<open>handle_i2c\<close>. The argument \<open>(n, buf)\<close> is what \<^verbatim>\<open>read\<close> returned and the buffer it
  filled; \<open>buf\<close> holds \<open>kI2cFrameBytes\<close> bytes when \<open>n\<close> is that count.
\<close>

definition handle_i2c ::
  "Env \<Rightarrow> (nat \<Rightarrow> u64) \<Rightarrow> int \<times> u8 list \<Rightarrow> LoopState \<Rightarrow> (LoopState \<times> Output list) res" where
  "handle_i2c E clk rd st =
     (if \<not> enabled (i2c_state st) then Inr (st, [])
      else if fst rd \<noteq> int kI2cFrameBytes then
        (if \<not> read_error_logged (i2c_state st)
         then Inr (st\<lparr>i2c_state := (i2c_state st)\<lparr>read_error_logged := True\<rparr>\<rparr>,
                   [WarnReadFailed (fst rd)])
         else Inr (st, []))
      else
        let raw = frame_samples (snd rd);
            dmask = frame_mask (snd rd);
            log_raw = (if i2c_log_samples E then [LogRaw raw dmask] else [])
        in (case analog_section E raw (analogs (i2c_state st)) of
              Inl e \<Rightarrow> Inl e
            | Inr (axes', out_a) \<Rightarrow>
                (case digital_section E clk dmask
                        (st\<lparr>i2c_state := (i2c_state st)\<lparr>read_error_logged := False,
                                                        analogs := axes'\<rparr>\<rparr>) of
                   Inl e \<Rightarrow> Inl e
                 | Inr (st', out_d) \<Rightarrow> Inr (st', log_raw @ out_a @ out_d))))"

section \<open>Startup: auto-assignment of the unmapped line offsets\<close>

definition BTN_0 :: int where "BTN_0 = 256"
definition BTN_SOUTH :: int where "BTN_SOUTH = 304"
definition BTN_EAST :: int where "BTN_EAST = 305"
definition BTN_NORTH :: int where "BTN_NORTH = 307"
definition BTN_WEST :: int where "BTN_WEST = 308"
definition BTN_TL :: int where "BTN_TL = 310"
definition BTN_TR :: int where "BTN_TR = 311"
definition BTN_TL2 :: int where "BTN_TL2 = 312"
definition BTN_TR2 :: int where "BTN_TR2 = 313"
definition BTN_SELECT :: int where "BTN_SELECT = 314"
definition BTN_START :: int where "BTN_START = 315"
definition BTN_MODE :: int where "BTN_MODE = 316"
definition BTN_THUMBL :: int where "BTN_THUMBL = 317"
definition BTN_THUMBR :: int where "BTN_THUMBR = 318"
definition KEY_1 :: int where "KEY_1 = 2"
definition KEY_0 :: int where "KEY_0 = 11"
definition KEY_A :: int where "KEY_A = 30"
definition KEY_F1 :: int where "KEY_F1 = 59"

definition is_excluded :: "nat \<Rightarrow> bool" where
  "is_excluded off = (off = 36)"

datatype AutoMode = Buttons | Keys | NoneMode  \<comment> \<open>\<^verbatim>\<open>AutoMode::None\<close>\<close>

definition kList :: "int list" where
  "kList = [BTN_SOUTH, BTN_EAST, BTN_NORTH, BTN_WEST,
            BTN_TL, BTN_TR, BTN_TL2, BTN_TR2,
            BTN_SELECT, BTN_START, BTN_THUMBL, BTN_THUMBR, BTN_MODE]"

text \<open>
  The two cyclic sequences. The index is never negative at a call (the counter starts at
  0 and only grows), so \<^verbatim>\<open>j % 10\<close> and \<^verbatim>\<open>idx % 26\<close> are \<open>mod\<close>.
\<close>

definition next_auto_button_code :: "int \<Rightarrow> int" where
  "next_auto_button_code idx =
     (if idx < int (length kList) then kList ! nat idx
      else
        let j = idx - int (length kList)
        in if j \<ge> 0 \<and> j \<le> 9 then BTN_0 + j else BTN_0 + (j mod 10))"

definition next_auto_key_code :: "int \<Rightarrow> int" where
  "next_auto_key_code idx =
     (if idx < 26 then KEY_A + idx
      else if idx - 26 < 10 then
        (if idx - 26 = 0 then KEY_0 else KEY_1 + (idx - 26 - 1))
      else if idx - 26 - 10 < 12 then KEY_F1 + (idx - 26 - 10)
      else KEY_A + ((idx - 26 - 10) mod 26))"

record MappingResult =
  gpio :: "(nat \<times> Action) list"
  i2c_digital :: "(nat \<times> Action) list"

text \<open>
  Lines 803--808: the offsets of the range without the excluded one, sorted. The loop of
  the source ends only for \<open>end\<close> below the largest \<^verbatim>\<open>uint32_t\<close>, which the cap of
  \<open>end\<close> to the last line of the chip ensures; the counter \<^verbatim>\<open>auto_idx\<close> then stays far
  below the range of \<^verbatim>\<open>int\<close>.
\<close>

definition candidates :: "nat \<Rightarrow> nat \<Rightarrow> nat list" where
  "candidates start end = sort (filter (\<lambda>off. \<not> is_excluded off) [start..<Suc end])"

text \<open>Lines 810--817: the codes the explicit mappings already use.\<close>

definition register_action :: "Action \<Rightarrow> int set \<times> int set \<Rightarrow> int set \<times> int set" where
  "register_action a used =
     (if type a \<noteq> ButtonOrKey then used
      else if dev a = Gamepad then (insert (code a) (fst used), snd used)
      else (fst used, insert (code a) (snd used)))"

definition used_codes :: "MappingResult \<Rightarrow> int set \<times> int set" where
  "used_codes m = fold register_action (map snd (gpio m) @ map snd (i2c_digital m)) ({}, {})"

text \<open>
  The inner \<^verbatim>\<open>for (;;)\<close> of lines 826--830 and 834--838: the code taken, the set of
  used codes and the counter afterwards.
\<close>

function auto_pick :: "(int \<Rightarrow> int) \<Rightarrow> int set \<Rightarrow> int \<Rightarrow> int \<times> int set \<times> int" where
  "auto_pick nxt used auto_idx =
     (if nxt auto_idx \<notin> used then (nxt auto_idx, insert (nxt auto_idx) used, auto_idx + 1)
      else if auto_idx + 1 > 2000 then (nxt auto_idx, used, auto_idx + 1)
      else auto_pick nxt used (auto_idx + 1))"
  by pat_completeness auto
termination
  by (relation "measure (\<lambda>(nxt, used, auto_idx). nat (2000 - auto_idx))") auto

text \<open>The loop over the candidates (lines 819--841) on the state
  \<open>(gpio_map, used_btn, used_key, auto_idx)\<close>.\<close>

fun auto_assign ::
  "AutoMode \<Rightarrow> nat list \<Rightarrow> (nat \<times> Action) list \<times> int set \<times> int set \<times> int \<Rightarrow>
     (nat \<times> Action) list \<times> int set \<times> int set \<times> int" where
  "auto_assign mode [] s = s"
| "auto_assign mode (off # offs) (gm, used_btn, used_key, auto_idx) =
     (if map_of gm off \<noteq> None then auto_assign mode offs (gm, used_btn, used_key, auto_idx)
      else
        (case mode of
           NoneMode \<Rightarrow> auto_assign mode offs (gm, used_btn, used_key, auto_idx)
         | Buttons \<Rightarrow>
             (case auto_pick next_auto_button_code used_btn auto_idx of
                (c, used_btn', auto_idx') \<Rightarrow>
                  auto_assign mode offs
                    (AList.update off
                       \<lparr>type = ButtonOrKey, dev = Gamepad, code = c, hat_dir = Up,
                        token = ''AUTO_BTN''\<rparr> gm,
                     used_btn', used_key, auto_idx'))
         | Keys \<Rightarrow>
             (case auto_pick next_auto_key_code used_key auto_idx of
                (c, used_key', auto_idx') \<Rightarrow>
                  auto_assign mode offs
                    (AList.update off
                       \<lparr>type = ButtonOrKey, dev = Keyboard, code = c, hat_dir = Up,
                        token = ''AUTO_KEY''\<rparr> gm,
                     used_btn, used_key', auto_idx'))))"

definition build_gpio_map :: "AutoMode \<Rightarrow> nat \<Rightarrow> nat \<Rightarrow> MappingResult \<Rightarrow> (nat \<times> Action) list" where
  "build_gpio_map mode start end m =
     fst (auto_assign mode (candidates start end)
            (gpio m, fst (used_codes m), snd (used_codes m), 0))"

text \<open>The candidates that the explicit mapping leaves to the auto-assignment.\<close>

definition unmapped_candidates :: "nat \<Rightarrow> nat \<Rightarrow> MappingResult \<Rightarrow> nat list" where
  "unmapped_candidates start end m =
     filter (\<lambda>off. map_of (gpio m) off = None) (candidates start end)"

text \<open>How many of the first \<open>n\<close> codes of a sequence are not in a set of used codes.\<close>

definition free_codes :: "(int \<Rightarrow> int) \<Rightarrow> nat \<Rightarrow> int set \<Rightarrow> nat" where
  "free_codes nxt n used = length (filter (\<lambda>i. nxt (int i) \<notin> used) [0..<n])"

section \<open>Startup: peripheral state and the check for input sources\<close>

definition ABS_X :: u16 where "ABS_X = 0"
definition ABS_Y :: u16 where "ABS_Y = 1"
definition ABS_Z :: u16 where "ABS_Z = 2"
definition ABS_RX :: u16 where "ABS_RX = 3"
definition ABS_RY :: u16 where "ABS_RY = 4"

definition kDefaultI2cAnalogs :: "(string \<times> nat \<times> u16) list" where
  "kDefaultI2cAnalogs =
     [(''A0'', 0, ABS_X), (''A1'', 1, ABS_Y), (''A2'', 2, ABS_RX),
      (''A3'', 3, ABS_RY), (''A6'', 4, ABS_Z)]"

text \<open>The default member initialisers of \<^verbatim>\<open>I2cState\<close>.\<close>

definition I2cState_default :: I2cState where
  "I2cState_default =
     \<lparr>enabled = False, last_mask = 0, have_mask = False, read_error_logged = False,
      button_bits = [], analogs = []\<rparr>"

text \<open>
  Lines 868--896. \<open>open_ok\<close> says that \<^verbatim>\<open>open\<close> of the bus device succeeds (otherwise
  \<^verbatim>\<open>xopen\<close> calls \<^verbatim>\<open>die("open(" + path + ")")\<close>), \<open>slave_ok\<close> that the \<^verbatim>\<open>I2C_SLAVE\<close>
  request succeeds (otherwise \<^verbatim>\<open>die("I2C_SLAVE")\<close>).
\<close>

definition init_i2c_state ::
  "string \<Rightarrow> bool \<Rightarrow> bool \<Rightarrow> bool \<Rightarrow> (nat \<times> Action) list \<Rightarrow> I2cState res" where
  "init_i2c_state i2c_dev_path open_ok slave_ok i2c_disable_axes i2c_button_map =
     (if i2c_dev_path = [] then Inr I2cState_default
      else if \<not> open_ok then Inl (Die (''open('' @ i2c_dev_path @ '')''))
      else if \<not> slave_ok then Inl (Die ''I2C_SLAVE'')
      else Inr (I2cState_default
        \<lparr>enabled := True,
         button_bits :=
           fold (\<lambda>kv bb. if fst kv < 2 \<or> fst kv > 13 then bb
                          else AList.update (fst kv - 2) \<lparr>pin = fst kv, action = snd kv\<rparr> bb)
             i2c_button_map [],
         analogs :=
           (if \<not> i2c_disable_axes then
              map (\<lambda>desc. \<lparr>raw_index = fst (snd desc), label = fst desc,
                            abs_code = snd (snd desc), min_seen = - 1, max_seen = 1,
                            initialized = False, last_scaled = - 1\<rparr>) kDefaultI2cAnalogs
            else [])\<rparr>))"

datatype Startup =
    Died Fatal                  \<comment> \<open>the process ended in \<^verbatim>\<open>die\<close>, with exit status 1\<close>
  | ExitWith int "string list"  \<comment> \<open>\<^verbatim>\<open>return\<close> from \<^verbatim>\<open>main\<close>: exit status, lines on stderr\<close>
  | Proceed "string list"       \<comment> \<open>startup goes on; lines on stderr\<close>

definition have_i2c_inputs :: "I2cState \<Rightarrow> bool" where
  "have_i2c_inputs s = (enabled s \<and> (button_bits s \<noteq> [] \<or> analogs s \<noteq> []))"

text \<open>Lines 898--906, on the lines that could be requested and the peripheral state.\<close>

definition no_inputs_diagnostic :: "string list" where
  "no_inputs_diagnostic =
     [''No lines could be requested and no I2C inputs configured.'',
      ''On Android: run as root, and ensure /dev/gpiochip* and /dev/uinput are accessible.'']"

definition i2c_only_warning :: "string list" where
  "i2c_only_warning = [''WARN: no GPIO lines requested; running with I2C inputs only.'']"

definition startup_check :: "WatchedLine list \<Rightarrow> I2cState \<Rightarrow> Startup" where
  "startup_check ws s =
     (if ws = [] \<and> \<not> have_i2c_inputs s then ExitWith 1 no_inputs_diagnostic
      else if ws = [] \<and> have_i2c_inputs s then Proceed i2c_only_warning
      else Proceed [])"

text \<open>Lines 868--906: the peripheral state is set up, then the input sources are checked.\<close>

definition startup_inputs ::
  "WatchedLine list \<Rightarrow> string \<Rightarrow> bool \<Rightarrow> bool \<Rightarrow> bool \<Rightarrow> (nat \<times> Action) list \<Rightarrow>
     Startup" where
  "startup_inputs ws i2c_dev_path open_ok slave_ok i2c_disable_axes i2c_button_map =
     (case init_i2c_state i2c_dev_path open_ok slave_ok i2c_disable_axes i2c_button_map of
        Inl f \<Rightarrow> Died f
      | Inr s \<Rightarrow> startup_check ws s)"

section \<open>Observations on the outputs\<close>

fun is_write :: "Output \<Rightarrow> bool" where
  "is_write (UinputWrite fd ty c v) = True"
| "is_write _ = False"

text \<open>The origin of a logged press or release, mapped or not.\<close>

fun output_origin :: "Output \<Rightarrow> Origin option" where
  "output_origin (Transition ts origin tok press d) = Some origin"
| "output_origin (Unmapped ts origin press) = Some origin"
| "output_origin _ = None"

definition pin_transitions :: "nat \<Rightarrow> Output list \<Rightarrow> Output list" where
  "pin_transitions p out = filter (\<lambda>x. output_origin x = Some (I2cPinOrigin p)) out"

text \<open>A press or release on the digital side: its log line or a key event.\<close>

fun is_digital_output :: "Output \<Rightarrow> bool" where
  "is_digital_output (Transition ts origin tok press d) = True"
| "is_digital_output (Unmapped ts origin press) = True"
| "is_digital_output (UinputWrite fd ty c v) = (ty = EV_KEY)"
| "is_digital_output _ = False"

text \<open>The timestamps of the accepted transitions of a GPIO line, in order.\<close>

fun gpio_accept_ts :: "nat \<Rightarrow> Output \<Rightarrow> u64 option" where
  "gpio_accept_ts off (Transition ts (GpioOrigin off' nm) tok press d) =
     (if off' = off then Some ts else None)"
| "gpio_accept_ts off _ = None"

definition accepted_ts :: "nat \<Rightarrow> Output list \<Rightarrow> u64 list" where
  "accepted_ts off out = List.map_filter (gpio_accept_ts off) out"

text \<open>Consecutive timestamps at least a window apart.\<close>

definition spaced :: "u64 \<Rightarrow> u64 list \<Rightarrow> bool" where
  "spaced w ts = successively (\<lambda>t1 t2. unat t1 + unat w \<le> unat t2) ts"

section \<open>Concrete configurations and inputs\<close>

definition btn_south_action :: Action where
  "btn_south_action =
     \<lparr>type = ButtonOrKey, dev = Gamepad, code = BTN_SOUTH, hat_dir = Up, token = ''BTN_SOUTH''\<rparr>"

definition hat_up_action :: Action where
  "hat_up_action =
     \<lparr>type = HatDir, dev = Gamepad, code = 0, hat_dir = Up, token = ''HAT_UP''\<rparr>"

text \<open>
  A run with a gamepad on descriptor 3 and a keyboard on descriptor 4, active-low, a
  debounce window of 1000 us, line 17 mapped to \<^verbatim>\<open>BTN_SOUTH\<close> and line 15 to
  \<^verbatim>\<open>HAT_UP\<close>.
\<close>

definition ex_env :: Env where
  "ex_env =
     \<lparr>ufd_gamepad = 3, ufd_keyboard = 4, need_hat = True, active_low = True,
      debounce_ns = 1000000, gpio_map = [(17, btn_south_action), (15, hat_up_action)],
      watched = [], i2c_log_samples = False, uinput_writable = (\<lambda>fd. True)\<rparr>"

text \<open>The peripheral state of a run whose map file holds \<^verbatim>\<open>D5 BTN_SOUTH\<close>.\<close>

definition ex_i2c :: I2cState where
  "ex_i2c =
     \<lparr>enabled = True, last_mask = 0, have_mask = False, read_error_logged = False,
      button_bits = [(3, \<lparr>pin = 5, action = btn_south_action\<rparr>)],
      analogs = [\<lparr>raw_index = 0, label = ''A0'', abs_code = ABS_X, min_seen = - 1,
                  max_seen = 1, initialized = False, last_scaled = - 1\<rparr>]\<rparr>"

definition ex_state :: LoopState where
  "ex_state =
     \<lparr>last_accept_ns = Map.empty, hat_up = False, hat_down = False, hat_left = False,
      hat_right = False, last_hat_x = 0, last_hat_y = 0, i2c_state = ex_i2c\<rparr>"

definition ex_clk :: "nat \<Rightarrow> u64" where
  "ex_clk b = 0"

text \<open>Frames of twelve bytes: all zero, and with bit 3 of the bitmask set.\<close>

definition frame_zero :: "u8 list" where
  "frame_zero = [0, 0, 0, 0, 0, 0, 0, 0, 0, 0, 0, 0]"

definition frame_bit3 :: "u8 list" where
  "frame_bit3 = [0, 0, 0, 0, 0, 0, 0, 0, 0, 0, 8, 0]"

text \<open>The axis A0 after the samples 500, 520 and 10, and a state that holds it.\<close>

definition ex_axis :: I2cAnalogAxisState where
  "ex_axis =
     \<lparr>raw_index = 0, label = ''A0'', abs_code = ABS_X, min_seen = 10, max_seen = 756,
      initialized = True, last_scaled = 0\<rparr>"

definition ex_state_cal :: LoopState where
  "ex_state_cal = ex_state\<lparr>i2c_state := ex_i2c\<lparr>analogs := [ex_axis]\<rparr>\<rparr>"

text \<open>A frame whose first sample is 5.\<close>

definition frame_a0_5 :: "u8 list" where
  "frame_a0_5 = [5, 0, 0, 0, 0, 0, 0, 0, 0, 0, 0, 0]"

text \<open>
  The peripheral state that \<^verbatim>\<open>--i2c-dev /dev/i2c-1 --i2c-no-axes\<close> and a map file
  holding \<^verbatim>\<open>D5 BTN_SOUTH\<close> produce, before the first frame, after a frame whose bit 3
  is low, and after a following frame whose bit 3 is high.
\<close>

definition ex_i2c_d5 :: I2cState where
  "ex_i2c_d5 =
     \<lparr>enabled = True, last_mask = 0, have_mask = False, read_error_logged = False,
      button_bits = [(3, \<lparr>pin = 5, action = btn_south_action\<rparr>)], analogs = []\<rparr>"

definition ex_state_d5 :: LoopState where
  "ex_state_d5 = ex_state\<lparr>i2c_state := ex_i2c_d5\<rparr>"

definition ex_state_d5_low :: LoopState where
  "ex_state_d5_low = ex_state\<lparr>i2c_state := ex_i2c_d5\<lparr>last_mask := 0, have_mask := True\<rparr>\<rparr>"

definition ex_state_d5_high :: LoopState where
  "ex_state_d5_high = ex_state\<lparr>i2c_state := ex_i2c_d5\<lparr>last_mask := 8, have_mask := True\<rparr>\<rparr>"

text \<open>Edge events on line 17, named by edge and timestamp in ns.\<close>

definition ev_fall_1000 :: gpio_v2_line_event where
  "ev_fall_1000 =
     \<lparr>timestamp_ns = 1000, id_kind = GPIO_V2_LINE_EVENT_FALLING_EDGE, offset = 17\<rparr>"

definition ev_rise_999 :: gpio_v2_line_event where
  "ev_rise_999 =
     \<lparr>timestamp_ns = 999, id_kind = GPIO_V2_LINE_EVENT_RISING_EDGE, offset = 17\<rparr>"

definition ev_rise_5000 :: gpio_v2_line_event where
  "ev_rise_5000 =
     \<lparr>timestamp_ns = 5000, id_kind = GPIO_V2_LINE_EVENT_RISING_EDGE, offset = 17\<rparr>"

definition ev_fall_6000 :: gpio_v2_line_event where
  "ev_fall_6000 =
     \<lparr>timestamp_ns = 6000, id_kind = GPIO_V2_LINE_EVENT_FALLING_EDGE, offset = 17\<rparr>"

definition ev_fall_2000000 :: gpio_v2_line_event where
  "ev_fall_2000000 =
     \<lparr>timestamp_ns = 2000000, id_kind = GPIO_V2_LINE_EVENT_FALLING_EDGE, offset = 17\<rparr>"

definition ev_rise_2000500 :: gpio_v2_line_event where
  "ev_rise_2000500 =
     \<lparr>timestamp_ns = 2000500, id_kind = GPIO_V2_LINE_EVENT_RISING_EDGE, offset = 17\<rparr>"

text \<open>The loop state in which line 17 has an accepted transition at 1000 ns.\<close>

definition ex_state_rec :: LoopState where
  "ex_state_rec = ex_state\<lparr>last_accept_ns := [17 \<mapsto> 1000]\<rparr>"

text \<open>
  The mapping of a map file without entries, and the built-in default mapping
  (\<^verbatim>\<open>default_mapping_from_your_log\<close>) with the actions its five tokens resolve to.
\<close>

definition empty_mapping :: MappingResult where
  "empty_mapping = \<lparr>gpio = [], i2c_digital = []\<rparr>"

definition hat_action :: "HatDir \<Rightarrow> string \<Rightarrow> Action" where
  "hat_action d tok = \<lparr>type = HatDir, dev = Gamepad, code = 0, hat_dir = d, token = tok\<rparr>"

definition default_mapping_from_your_log :: MappingResult where
  "default_mapping_from_your_log =
     \<lparr>gpio = [(15, hat_action Up ''HAT_UP''), (18, hat_action Down ''HAT_DOWN''),
              (4, hat_action Left ''HAT_LEFT''), (14, hat_action Right ''HAT_RIGHT''),
              (21, btn_south_action)],
      i2c_digital = []\<rparr>"

section \<open>Auxiliary facts\<close>

subsection \<open>Hat, calibration and scaling\<close>

lemma hat_vector_range: "fst (hat_vector u d l r) \<in> {- 1, 0, 1} \<and> snd (hat_vector u d l r) \<in> {- 1, 0, 1}
  \<and> snd (hat_vector True True l r) = 0 \<and> fst (hat_vector u d True True) = 0"
  by (simp add: hat_vector_def)

lemma recompute_hat_last:
  assumes "recompute_hat E st = Inr (st', out)" "ufd_gamepad E \<ge> 0" "need_hat E"
  shows "last_hat_x st' = fst (hat_vector (hat_up st) (hat_down st) (hat_left st) (hat_right st))
       \<and> last_hat_y st' = snd (hat_vector (hat_up st) (hat_down st) (hat_left st) (hat_right st))"
  using assms by (auto simp: recompute_hat_def Let_def split: if_splits sum.splits)

lemma calibrate_init: "initialized a \<Longrightarrow> calibrate a s =
   (let a2 = (if s < min_seen a then a\<lparr>min_seen := s\<rparr> else a) in
     if s > max_seen a2 then a2\<lparr>max_seen := s\<rparr> else a2)"
  by (simp add: calibrate_def Let_def)

lemma calibrate_widens:
  assumes "initialized a"
  shows "min_seen (calibrate a s) \<le> min_seen a \<and> max_seen a \<le> max_seen (calibrate a s)
     \<and> min_seen (calibrate a s) \<le> s \<and> s \<le> max_seen (calibrate a s) \<and> initialized (calibrate a s)"
  using assms by (auto simp: calibrate_init Let_def)

lemma calibrate_id: "initialized a \<Longrightarrow> min_seen a \<le> s \<Longrightarrow> s \<le> max_seen a \<Longrightarrow> calibrate a s = a"
  by (auto simp: calibrate_init Let_def)

lemma span_pos: "0 < uint (analog_span mn mx)"
  unfolding analog_span_def Let_def kI2cAnalogMinSpan_def
  by (auto simp: word_less_def word_le_def not_less split: if_splits)

lemma c_div_nonneg: "0 \<le> a \<Longrightarrow> 0 < b \<Longrightarrow> c_div a b = a div b"
  by (cases "a = 0") (auto simp: c_div_def)

lemma scale_bounds: "0 \<le> analog_scale mn mx r \<and> analog_scale mn mx r \<le> 100"
  by (simp add: analog_scale_def Let_def)

lemma scale_mono:
  assumes "mn \<le> r1" "r1 \<le> r2" "r2 \<le> mx"
  shows "analog_scale mn mx r1 \<le> analog_scale mn mx r2"
proof -
  have u: "uint mn \<le> uint r1" "uint r1 \<le> uint r2" "uint r2 \<le> uint mx"
    using assms by (simp_all add: word_le_def)
  let ?s = "uint (analog_span mn mx)"
  have c1: "clamp_int (uint r1) (uint mn) (uint mx) = uint r1" using u by (simp add: clamp_int_def)
  have c2: "clamp_int (uint r2) (uint mn) (uint mx) = uint r2" using u by (simp add: clamp_int_def)
  have "(uint r1 - uint mn) * 100 div ?s \<le> (uint r2 - uint mn) * 100 div ?s"
    using u span_pos[of mn mx] by (intro zdiv_mono1) auto
  then show ?thesis
    using u span_pos[of mn mx] by (simp add: analog_scale_def Let_def c1 c2 c_div_nonneg)
qed

subsection \<open>Emission\<close>

lemma seq_out_Inr: "seq_out a b = Inr out \<longleftrightarrow> (\<exists>o1 o2. a = Inr o1 \<and> b = Inr o2 \<and> out = o1 @ o2)"
  by (auto simp: seq_out_def split: sum.splits)

lemma uinput_emit_Inr: "uinput_emit E fd ty c v = Inr out \<Longrightarrow> out = [UinputWrite fd ty c v]"
  by (auto simp: uinput_emit_def split: if_splits)

lemma uinput_emit_ok: "uinput_writable E fd \<Longrightarrow> uinput_emit E fd ty c v = Inr [UinputWrite fd ty c v]"
  by (simp add: uinput_emit_def)

lemma uinput_key_ok: "uinput_writable E fd \<Longrightarrow>
  uinput_key E fd c down = Inr [UinputWrite fd EV_KEY (word_of_int c) (if down then 1 else 0), UinputWrite fd EV_SYN SYN_REPORT 0]"
  by (simp add: uinput_key_def uinput_syn_def uinput_emit_ok seq_out_def)

lemma uinput_key_Inr: "uinput_key E fd c down = Inr out \<Longrightarrow>
  out = [UinputWrite fd EV_KEY (word_of_int c) (if down then 1 else 0), UinputWrite fd EV_SYN SYN_REPORT 0]"
  by (auto simp: uinput_key_def uinput_syn_def seq_out_Inr dest!: uinput_emit_Inr)

lemma recompute_hat_Inr:
  assumes "recompute_hat E st = Inr (st', out)"
  shows "i2c_state st' = i2c_state st \<and> last_accept_ns st' = last_accept_ns st \<and> list_all is_write out
    \<and> hat_up st' = hat_up st \<and> hat_down st' = hat_down st \<and> hat_left st' = hat_left st \<and> hat_right st' = hat_right st"
  using assms
  by (auto simp: recompute_hat_def Let_def seq_out_Inr uinput_abs_def uinput_syn_def
      split: if_splits sum.splits dest!: uinput_emit_Inr)

lemma recompute_hat_ok:
  assumes "uinput_writable E (ufd_gamepad E)"
  shows "\<exists>st' out. recompute_hat E st = Inr (st', out)"
  using assms
  by (auto simp: recompute_hat_def Let_def seq_out_def uinput_abs_def uinput_syn_def uinput_emit_ok)

lemma emit_action_Inr:
  assumes "emit_action E act press ts origin st = Inr (st', out)"
  shows "i2c_state st' = i2c_state st \<and> last_accept_ns st' = last_accept_ns st \<and>
    (\<exists>ws d. list_all is_write ws \<and> out = ws @ [Transition ts origin (token act) press d])"
proof (cases "type act = HatDir")
  case True
  with assms obtain o1 where r: "recompute_hat E (set_hat_dir (hat_dir act) press st) = Inr (st', o1)"
    and o: "out = o1 @ [Transition ts origin (token act) press (HatXY (last_hat_x st') (last_hat_y st'))]"
    by (auto simp: emit_action_def split: sum.splits)
  have "i2c_state (set_hat_dir (hat_dir act) press st) = i2c_state st"
       "last_accept_ns (set_hat_dir (hat_dir act) press st) = last_accept_ns st"
    by (auto simp: set_hat_dir_def split: HatDir.splits)
  with recompute_hat_Inr[OF r] o show ?thesis by auto
next
  case False
  with assms show ?thesis
    by (auto simp: emit_action_def Let_def split: sum.splits if_splits dest!: uinput_key_Inr)
qed

lemma emit_action_ok:
  assumes "\<forall>fd. uinput_writable E fd"
  shows "\<exists>st' out. emit_action E act press ts origin st = Inr (st', out)"
proof (cases "type act = HatDir")
  case True
  from recompute_hat_ok[of E "set_hat_dir (hat_dir act) press st"] assms
  obtain st' o1 where "recompute_hat E (set_hat_dir (hat_dir act) press st) = Inr (st', o1)" by blast
  with True show ?thesis by (simp add: emit_action_def)
next
  case False
  with assms show ?thesis
    by (simp add: emit_action_def Let_def uinput_key_ok)
qed

lemma emit_action_key:
  assumes "type act = ButtonOrKey" "dev act = Gamepad" "0 \<le> ufd_gamepad E" "uinput_writable E (ufd_gamepad E)"
  shows "emit_action E act press ts origin st =
     Inr (st, [UinputWrite (ufd_gamepad E) EV_KEY (word_of_int (code act)) (if press then 1 else 0),
               UinputWrite (ufd_gamepad E) EV_SYN SYN_REPORT 0,
               Transition ts origin (token act) press (DevCode Gamepad (code act))])"
  using assms by (simp add: emit_action_def Let_def uinput_key_ok)

subsection \<open>Peripheral path\<close>

lemma axis_step_ok:
  assumes "uinput_writable E (ufd_gamepad E)"
  shows "\<exists>a' out c. axis_step E raw a = Inr (a', out, c)"
  using assms by (auto simp: axis_step_def Let_def uinput_abs_def uinput_emit_ok)

lemma axis_step_Inr:
  assumes "axis_step E raw a = Inr (a', out, c)"
  shows "list_all is_write out \<and> list_all (\<lambda>x. \<not> is_digital_output x) out \<and>
     (raw_index a < kI2cAnalogValueCount \<longrightarrow>
        min_seen a' = min_seen (calibrate a (raw ! raw_index a)) \<and>
        max_seen a' = max_seen (calibrate a (raw ! raw_index a)) \<and>
        initialized a' = initialized (calibrate a (raw ! raw_index a)) \<and>
        last_scaled a' = analog_scale (min_seen a') (max_seen a') (raw ! raw_index a))"
  using assms
  by (auto simp: axis_step_def Let_def uinput_abs_def EV_ABS_def EV_KEY_def
      split: if_splits sum.splits dest!: uinput_emit_Inr)

lemma analog_pass_ok:
  assumes "uinput_writable E (ufd_gamepad E)"
  shows "\<exists>as' out c. analog_pass E raw as = Inr (as', out, c)"
proof (induction as)
  case Nil show ?case by auto
next
  case (Cons a as)
  from axis_step_ok[OF assms, of raw a] obtain a' o1 c1 where "axis_step E raw a = Inr (a', o1, c1)" by blast
  moreover from Cons obtain as' o2 c2 where "analog_pass E raw as = Inr (as', o2, c2)" by blast
  ultimately show ?case by auto
qed

lemma analog_pass_Inr:
  assumes "analog_pass E raw as = Inr (as', out, c)"
  shows "length as' = length as \<and> list_all is_write out \<and> list_all (\<lambda>x. \<not> is_digital_output x) out \<and>
     (\<forall>k<length as. \<exists>o1 c1. axis_step E raw (as ! k) = Inr (as' ! k, o1, c1))"
  using assms
proof (induction as arbitrary: as' out c)
  case Nil then show ?case by simp
next
  case (Cons a as)
  from Cons.prems obtain a' o1 c1 as2 o2 c2 where
    s: "axis_step E raw a = Inr (a', o1, c1)" and r: "analog_pass E raw as = Inr (as2, o2, c2)"
    and e: "as' = a' # as2" "out = o1 @ o2"
    by (auto split: sum.splits prod.splits)
  from Cons.IH[OF r] axis_step_Inr[OF s] s e show ?case
    by (auto simp: nth_Cons split: nat.splits)
qed

lemma analog_section_ok:
  assumes "uinput_writable E (ufd_gamepad E)"
  shows "\<exists>as' out. analog_section E raw as = Inr (as', out)"
proof -
  from analog_pass_ok[OF assms, of raw as] obtain as' o1 c where "analog_pass E raw as = Inr (as', o1, c)" by blast
  then show ?thesis using assms
    by (simp add: analog_section_def Let_def uinput_syn_def uinput_emit_ok)
qed

lemma analog_section_Inr:
  assumes "analog_section E raw as = Inr (as', out)"
  shows "length as' = length as \<and> list_all (\<lambda>x. \<not> is_digital_output x) out \<and>
     (0 \<le> ufd_gamepad E \<longrightarrow> (\<forall>k<length as. \<exists>o1 c1. axis_step E raw (as ! k) = Inr (as' ! k, o1, c1)))"
proof (cases "as \<noteq> [] \<and> ufd_gamepad E \<ge> 0")
  case True
  with assms obtain o1 c where p: "analog_pass E raw as = Inr (as', o1, c)"
    and o: "\<exists>syn. (if c then uinput_syn E (ufd_gamepad E) else Inr []) = Inr syn \<and>
       out = o1 @ syn @ (if i2c_log_samples E \<and> filter (\<lambda>a. raw_index a < kI2cAnalogValueCount) as' \<noteq> []
          then [LogAxes (map (axis_log raw) (filter (\<lambda>a. raw_index a < kI2cAnalogValueCount) as'))] else [])"
    by (auto simp: analog_section_def Let_def split: sum.splits)
  from o obtain syn where syn: "(if c then uinput_syn E (ufd_gamepad E) else Inr []) = Inr syn"
    and out: "out = o1 @ syn @ (if i2c_log_samples E \<and> filter (\<lambda>a. raw_index a < kI2cAnalogValueCount) as' \<noteq> []
          then [LogAxes (map (axis_log raw) (filter (\<lambda>a. raw_index a < kI2cAnalogValueCount) as'))] else [])"
    by blast
  from syn have "list_all (\<lambda>x. \<not> is_digital_output x) syn"
    by (auto simp: uinput_syn_def EV_SYN_def EV_KEY_def split: if_splits dest!: uinput_emit_Inr)
  with analog_pass_Inr[OF p] out show ?thesis by auto
next
  case False
  with assms show ?thesis by (auto simp: analog_section_def)
qed

lemma i2c_bit_step_Inr:
  assumes "i2c_bit_step E clk dm ch b st = Inr (st', out)"
  shows "i2c_state st' = i2c_state st \<and> last_accept_ns st' = last_accept_ns st \<and>
     (p \<noteq> b + 2 \<longrightarrow> pin_transitions p out = [])"
proof (cases "bit ch b")
  case False with assms show ?thesis by (simp add: i2c_bit_step_def pin_transitions_def)
next
  case True
  show ?thesis
  proof (cases "map_of (button_bits (i2c_state st)) b")
    case None
    with True assms show ?thesis by (auto simp: i2c_bit_step_def Let_def pin_transitions_def)
  next
    case (Some bnd)
    with True assms have e: "emit_action E (action bnd) (if active_low E then \<not> bit dm b else bit dm b)
       (clk b) (I2cPinOrigin (b + 2)) st = Inr (st', out)"
      by (simp add: i2c_bit_step_def Let_def)
    from emit_action_Inr[OF e] obtain ws d where
      "i2c_state st' = i2c_state st" "last_accept_ns st' = last_accept_ns st"
      "list_all is_write ws" "out = ws @ [Transition (clk b) (I2cPinOrigin (b + 2)) (token (action bnd))
          (if active_low E then \<not> bit dm b else bit dm b) d]" by blast
    moreover have "list_all is_write ws \<Longrightarrow> filter (\<lambda>x. output_origin x = Some (I2cPinOrigin p)) ws = []" for ws
      by (induction ws) (auto elim: is_write.elims)
    ultimately show ?thesis by (auto simp: pin_transitions_def)
  qed
qed

lemma i2c_bit_step_ok:
  assumes "\<forall>fd. uinput_writable E fd"
  shows "\<exists>st' out. i2c_bit_step E clk dm ch b st = Inr (st', out)"
  using emit_action_ok[OF assms]
  by (auto simp: i2c_bit_step_def Let_def split: option.splits)

lemma i2c_bits_ok:
  assumes "\<forall>fd. uinput_writable E fd"
  shows "\<exists>st' out. i2c_bits E clk dm ch bs st = Inr (st', out)"
proof (induction bs arbitrary: st)
  case Nil show ?case by simp
next
  case (Cons b bs)
  from i2c_bit_step_ok[OF assms] obtain st1 o1 where "i2c_bit_step E clk dm ch b st = Inr (st1, o1)" by blast
  moreover from Cons[of st1] obtain st2 o2 where "i2c_bits E clk dm ch bs st1 = Inr (st2, o2)" by blast
  ultimately show ?case by simp
qed

lemma i2c_bits_Inr:
  assumes "i2c_bits E clk dm ch bs st = Inr (st', out)"
  shows "i2c_state st' = i2c_state st \<and> last_accept_ns st' = last_accept_ns st \<and>
     (p - 2 \<notin> set bs \<or> p < 2 \<longrightarrow> pin_transitions p out = [])"
  using assms
proof (induction bs arbitrary: st out)
  case Nil then show ?case by (simp add: pin_transitions_def)
next
  case (Cons b bs)
  from Cons.prems obtain st1 o1 o2 where
    s: "i2c_bit_step E clk dm ch b st = Inr (st1, o1)" and r: "i2c_bits E clk dm ch bs st1 = Inr (st', o2)"
    and e: "out = o1 @ o2"
    by (auto split: sum.splits)
  from Cons.IH[OF r] i2c_bit_step_Inr[OF s, of p] e show ?case
    by (auto simp: pin_transitions_def)
qed

lemma i2c_bits_append:
  "i2c_bits E clk dm ch (xs @ ys) st =
     (case i2c_bits E clk dm ch xs st of Inl e \<Rightarrow> Inl e
      | Inr (st1, o1) \<Rightarrow> (case i2c_bits E clk dm ch ys st1 of Inl e \<Rightarrow> Inl e
          | Inr (st2, o2) \<Rightarrow> Inr (st2, o1 @ o2)))"
  by (induction xs arbitrary: st) (auto split: sum.splits)

lemma digital_section_first:
  "\<not> have_mask (i2c_state st) \<Longrightarrow> digital_section E clk dm st =
     Inr (st\<lparr>i2c_state := (i2c_state st)\<lparr>last_mask := dm, have_mask := True\<rparr>\<rparr>, [])"
  by (simp add: digital_section_def)

lemma digital_section_Inr:
  assumes "digital_section E clk dm st = Inr (st', out)"
  shows "i2c_state st' = (i2c_state st)\<lparr>last_mask := dm, have_mask := True\<rparr> \<and>
         last_accept_ns st' = last_accept_ns st"
  using assms by (auto simp: digital_section_def Let_def split: if_splits dest!: i2c_bits_Inr)

lemma digital_section_ok:
  assumes "\<forall>fd. uinput_writable E fd"
  shows "\<exists>st' out. digital_section E clk dm st = Inr (st', out)"
  using i2c_bits_ok[OF assms] by (auto simp: digital_section_def Let_def)

lemma handle_i2c_ok:
  assumes "\<forall>fd. uinput_writable E fd"
  shows "\<exists>st' out. handle_i2c E clk rd st = Inr (st', out)"
proof -
  obtain as' oa where a: "analog_section E (frame_samples (snd rd)) (analogs (i2c_state st)) = Inr (as', oa)"
    using analog_section_ok assms by blast
  obtain st' od where "digital_section E clk (frame_mask (snd rd))
      (st\<lparr>i2c_state := (i2c_state st)\<lparr>read_error_logged := False, analogs := as'\<rparr>\<rparr>) = Inr (st', od)"
    using digital_section_ok[OF assms] by blast
  with a show ?thesis by (auto simp: handle_i2c_def Let_def)
qed

lemma handle_i2c_frame_Inr:
  assumes "handle_i2c E clk (int kI2cFrameBytes, buf) st = Inr (st', out)" "enabled (i2c_state st)"
  shows "\<exists>as' oa od. analog_section E (frame_samples buf) (analogs (i2c_state st)) = Inr (as', oa) \<and>
     digital_section E clk (frame_mask buf)
        (st\<lparr>i2c_state := (i2c_state st)\<lparr>read_error_logged := False, analogs := as'\<rparr>\<rparr>) = Inr (st', od) \<and>
     out = (if i2c_log_samples E then [LogRaw (frame_samples buf) (frame_mask buf)] else []) @ oa @ od"
  using assms by (auto simp: handle_i2c_def Let_def split: sum.splits)


subsection \<open>GPIO path\<close>

lemma map_filter_app: "List.map_filter f (xs @ ys) = List.map_filter f xs @ List.map_filter f ys"
  by (simp add: List.map_filter_def)

lemma filter_writes_origin:
  "list_all is_write ws \<Longrightarrow> List.map_filter (gpio_accept_ts off) ws = []"
  by (induction ws) (auto simp: List.map_filter_simps elim: is_write.elims)

lemma accepted_ts_append: "accepted_ts off (xs @ ys) = accepted_ts off xs @ accepted_ts off ys"
  by (simp add: accepted_ts_def map_filter_app)

lemma accepted_ts_emit:
  "list_all is_write ws \<Longrightarrow>
   accepted_ts off (ws @ [Transition ts (GpioOrigin o' nm) tok press d]) = (if o' = off then [ts] else [])"
  by (simp add: accepted_ts_def map_filter_app filter_writes_origin List.map_filter_simps)

lemma debounce_drop_nat:
  "debounce_drop w (Some l) ts \<longleftrightarrow> 0 < w \<and> l \<le> ts \<and> unat ts - unat l < unat w"
  by (auto simp: debounce_drop_def word_less_nat_alt unat_sub)

lemma handle_gpio_event_skip:
  assumes "debounce_drop (debounce_ns E) (last_accept_ns st (offset e)) (timestamp_ns e)"
  shows "handle_gpio_event E e st = Inr (st, [])"
  using assms by (simp add: handle_gpio_event_def Let_def split: option.splits)

lemma handle_gpio_event_accept:
  assumes "map_of (gpio_map E) (offset e) = Some act"
    "id_kind e = GPIO_V2_LINE_EVENT_RISING_EDGE \<or> id_kind e = GPIO_V2_LINE_EVENT_FALLING_EDGE"
    "\<not> debounce_drop (debounce_ns E) (last_accept_ns st (offset e)) (timestamp_ns e)"
  shows "handle_gpio_event E e st =
     emit_action E act
       (if active_low E then id_kind e = GPIO_V2_LINE_EVENT_FALLING_EDGE
        else id_kind e = GPIO_V2_LINE_EVENT_RISING_EDGE)
       (timestamp_ns e) (GpioOrigin (offset e) (line_name (watched E) (offset e)))
       (st\<lparr>last_accept_ns := (last_accept_ns st)(offset e \<mapsto> timestamp_ns e)\<rparr>)"
  using assms by (auto simp: handle_gpio_event_def Let_def)

lemma handle_gpio_event_Inr:
  assumes "handle_gpio_event E e st = Inr (st', out)"
  shows "(st' = st \<and> out = []) \<or>
     (\<not> debounce_drop (debounce_ns E) (last_accept_ns st (offset e)) (timestamp_ns e) \<and>
      last_accept_ns st' = (last_accept_ns st)(offset e \<mapsto> timestamp_ns e) \<and>
      (\<forall>off. accepted_ts off out = (if offset e = off then [timestamp_ns e] else [])))"
proof (cases "\<exists>act. map_of (gpio_map E) (offset e) = Some act \<and>
    (id_kind e = GPIO_V2_LINE_EVENT_RISING_EDGE \<or> id_kind e = GPIO_V2_LINE_EVENT_FALLING_EDGE) \<and>
    \<not> debounce_drop (debounce_ns E) (last_accept_ns st (offset e)) (timestamp_ns e)")
  case True
  then obtain act where a: "map_of (gpio_map E) (offset e) = Some act"
    "id_kind e = GPIO_V2_LINE_EVENT_RISING_EDGE \<or> id_kind e = GPIO_V2_LINE_EVENT_FALLING_EDGE"
    "\<not> debounce_drop (debounce_ns E) (last_accept_ns st (offset e)) (timestamp_ns e)" by blast
  from assms handle_gpio_event_accept[OF a] have
    "emit_action E act
       (if active_low E then id_kind e = GPIO_V2_LINE_EVENT_FALLING_EDGE
        else id_kind e = GPIO_V2_LINE_EVENT_RISING_EDGE)
       (timestamp_ns e) (GpioOrigin (offset e) (line_name (watched E) (offset e)))
       (st\<lparr>last_accept_ns := (last_accept_ns st)(offset e \<mapsto> timestamp_ns e)\<rparr>) = Inr (st', out)" by simp
  from emit_action_Inr[OF this] a(3) show ?thesis
    by (auto simp: accepted_ts_emit)
next
  case False
  with assms show ?thesis
    by (auto simp: handle_gpio_event_def Let_def split: option.splits if_splits)
qed

lemma handle_gpio_event_ok:
  assumes "\<forall>fd. uinput_writable E fd"
  shows "\<exists>st' out. handle_gpio_event E e st = Inr (st', out)"
  using emit_action_ok[OF assms]
  by (auto simp: handle_gpio_event_def Let_def split: option.splits)

lemma handle_gpio_events_ok:
  assumes "\<forall>fd. uinput_writable E fd"
  shows "\<exists>st' out. handle_gpio_events E evs st = Inr (st', out)"
proof (induction evs arbitrary: st)
  case Nil show ?case by simp
next
  case (Cons e evs)
  from handle_gpio_event_ok[OF assms] obtain st1 o1 where "handle_gpio_event E e st = Inr (st1, o1)" by blast
  moreover from Cons[of st1] obtain st2 o2 where "handle_gpio_events E evs st1 = Inr (st2, o2)" by blast
  ultimately show ?case by simp
qed

lemma spaced_Cons: "spaced w (t # ts) \<longleftrightarrow> ts = [] \<or> unat t + unat w \<le> unat (hd ts) \<and> spaced w ts"
  by (simp add: spaced_def successively_Cons)

lemma gpio_run_spaced:
  assumes "0 < debounce_ns E" "handle_gpio_events E evs st = Inr (st', out)"
    "sorted (map (\<lambda>e. unat (timestamp_ns e)) (filter (\<lambda>e. offset e = off) evs))"
    "\<forall>l. last_accept_ns st off = Some l \<longrightarrow> (\<forall>e\<in>set evs. offset e = off \<longrightarrow> l \<le> timestamp_ns e)"
  shows "spaced (debounce_ns E)
     (case last_accept_ns st off of None \<Rightarrow> accepted_ts off out | Some l \<Rightarrow> l # accepted_ts off out)"
  using assms(2-)
proof (induction evs arbitrary: st out)
  case Nil
  then show ?case by (simp add: accepted_ts_def spaced_def List.map_filter_simps split: option.splits)
next
  case (Cons e evs)
  from Cons.prems(1) obtain st1 o1 o2 where
    s: "handle_gpio_event E e st = Inr (st1, o1)" and r: "handle_gpio_events E evs st1 = Inr (st', o2)"
    and o: "out = o1 @ o2"
    by (auto split: sum.splits)
  have srt: "sorted (map (\<lambda>e. unat (timestamp_ns e)) (filter (\<lambda>e. offset e = off) evs))"
    using Cons.prems(2) by (auto split: if_splits)
  have bnd: "\<forall>l. last_accept_ns st off = Some l \<longrightarrow> (\<forall>e\<in>set evs. offset e = off \<longrightarrow> l \<le> timestamp_ns e)"
    using Cons.prems(3) by auto
  from handle_gpio_event_Inr[OF s] consider
    (skip) "st1 = st" "o1 = []"
    | (other) "offset e \<noteq> off" "last_accept_ns st1 off = last_accept_ns st off" "accepted_ts off o1 = []"
    | (acc) "offset e = off" "last_accept_ns st1 off = Some (timestamp_ns e)"
        "accepted_ts off o1 = [timestamp_ns e]"
        "\<not> debounce_drop (debounce_ns E) (last_accept_ns st off) (timestamp_ns e)"
    by (cases "offset e = off") auto
  then show ?case
  proof cases
    case skip
    with Cons.IH[OF r srt] bnd o show ?thesis by (auto split: option.splits)
  next
    case other
    with Cons.IH[OF r srt] bnd o show ?thesis by (auto simp: accepted_ts_append split: option.splits)
  next
    case acc
    have later: "\<forall>e'\<in>set evs. offset e' = off \<longrightarrow> timestamp_ns e \<le> timestamp_ns e'"
      using Cons.prems(2) acc(1) by (auto simp: word_le_nat_alt)
    with Cons.IH[OF r srt] acc(2)
    have sp: "spaced (debounce_ns E) (timestamp_ns e # accepted_ts off o2)" by simp
    show ?thesis
    proof (cases "last_accept_ns st off")
      case None
      with sp o acc(3) show ?thesis by (simp add: accepted_ts_append)
    next
      case (Some l)
      with Cons.prems(3) acc(1) have "l \<le> timestamp_ns e" by simp
      with acc(4) Some assms(1) have "unat l + unat (debounce_ns E) \<le> unat (timestamp_ns e)"
        by (simp add: debounce_drop_nat word_le_nat_alt)
      with sp Some o acc(3) show ?thesis
        by (simp add: accepted_ts_append spaced_def)
    qed
  qed
qed


subsection \<open>Startup and button bindings\<close>

lemma update_nonempty: "AList.update k v al \<noteq> []"
  by (cases al) auto

lemma fold_bits_empty:
  "fold (\<lambda>kv bb. if fst kv < 2 \<or> fst kv > 13 then bb
                  else AList.update (fst kv - 2) \<lparr>pin = fst kv, action = snd kv\<rparr> bb) m acc = []
   \<longleftrightarrow> acc = [] \<and> (\<forall>kv\<in>set m. fst kv < 2 \<or> 13 < fst kv)"
  by (induction m arbitrary: acc) (auto simp: update_nonempty)

lemma have_i2c_inputs_init:
  assumes "init_i2c_state path ok1 ok2 dis m = Inr s0"
  shows "have_i2c_inputs s0 = (path \<noteq> [] \<and> (\<not> dis \<or> (\<exists>kv\<in>set m. 2 \<le> fst kv \<and> fst kv \<le> 13)))"
proof (cases "path = []")
  case True
  with assms show ?thesis
    by (auto simp: init_i2c_state_def have_i2c_inputs_def I2cState_default_def)
next
  case False
  with assms have s0: "s0 = I2cState_default
        \<lparr>enabled := True,
         button_bits :=
           fold (\<lambda>kv bb. if fst kv < 2 \<or> fst kv > 13 then bb
                          else AList.update (fst kv - 2) \<lparr>pin = fst kv, action = snd kv\<rparr> bb)
             m [],
         analogs :=
           (if \<not> dis then
              map (\<lambda>desc. \<lparr>raw_index = fst (snd desc), label = fst desc,
                            abs_code = snd (snd desc), min_seen = - 1, max_seen = 1,
                            initialized = False, last_scaled = - 1\<rparr>) kDefaultI2cAnalogs
            else [])\<rparr>"
    by (simp add: init_i2c_state_def split: if_splits)
  have e: "enabled s0"
    and b: "(button_bits s0 = []) = (\<forall>kv\<in>set m. fst kv < 2 \<or> 13 < fst kv)"
    and a: "(analogs s0 = []) = dis"
    unfolding s0 by (simp_all add: fold_bits_empty kDefaultI2cAnalogs_def)
  have "(\<exists>kv\<in>set m. 2 \<le> fst kv \<and> fst kv \<le> 13) = (\<not> (\<forall>kv\<in>set m. fst kv < 2 \<or> 13 < fst kv))"
    by (auto simp: not_less not_le)
  with e a b False show ?thesis unfolding have_i2c_inputs_def by blast
qed

lemma fold_bits_lookup:
  assumes "distinct (map fst m)"
  shows "map_of (fold (\<lambda>kv bb. if fst kv < 2 \<or> fst kv > 13 then bb
                  else AList.update (fst kv - 2) \<lparr>pin = fst kv, action = snd kv\<rparr> bb) m acc) b =
     (if b + 2 \<le> 13 then
        (case map_of m (b + 2) of Some a \<Rightarrow> Some \<lparr>pin = b + 2, action = a\<rparr> | None \<Rightarrow> map_of acc b)
      else map_of acc b)"
  using assms
proof (induction m arbitrary: acc)
  case Nil then show ?case by simp
next
  case (Cons kv m)
  then have d: "distinct (map fst m)" and n: "fst kv \<notin> fst ` set m" by auto
  from n have none: "map_of m (fst kv) = None" by (simp add: map_of_eq_None_iff)
  show ?case
    using Cons.IH[OF d] none
    by (cases kv) (auto simp: update_conv' split: option.splits)
qed

lemma init_button_bits:
  assumes "init_i2c_state path ok1 ok2 dis m = Inr s0" "path \<noteq> []" "distinct (map fst m)"
    "map_of m p = Some act" "2 \<le> p" "p \<le> 13"
  shows "enabled s0 \<and> map_of (button_bits s0) (p - 2) = Some \<lparr>pin = p, action = act\<rparr>"
proof -
  have p: "p - 2 + 2 = p" using assms(5) by simp
  have "map_of (fold (\<lambda>kv bb. if fst kv < 2 \<or> fst kv > 13 then bb
                  else AList.update (fst kv - 2) \<lparr>pin = fst kv, action = snd kv\<rparr> bb) m []) (p - 2) =
     Some \<lparr>pin = p, action = act\<rparr>"
    unfolding fold_bits_lookup[OF assms(3)] p using assms(4,6) by simp
  with assms(1,2) show ?thesis
    by (auto simp: init_i2c_state_def I2cState_default_def split: if_splits)
qed

lemma upt12: "[0..<12] = [0..<3] @ 3 # [4..<12]"
  by (simp add: upt_rec)

lemma not_digital_origin: "\<not> is_digital_output x \<Longrightarrow> output_origin x = None"
  by (cases x) auto

lemma pin_transitions_not_digital:
  "list_all (\<lambda>x. \<not> is_digital_output x) out \<Longrightarrow> pin_transitions p out = []"
  by (induction out) (auto simp: pin_transitions_def not_digital_origin)

lemma pin_transitions_append: "pin_transitions p (xs @ ys) = pin_transitions p xs @ pin_transitions p ys"
  by (simp add: pin_transitions_def)

lemma i2c_bit_step_mapped_key:
  assumes "bit ch b" "map_of (button_bits (i2c_state st)) b = Some bnd"
    "type (action bnd) = ButtonOrKey" "dev (action bnd) = Gamepad"
    "0 \<le> ufd_gamepad E" "uinput_writable E (ufd_gamepad E)"
  shows "i2c_bit_step E clk dm ch b st =
     Inr (st, [UinputWrite (ufd_gamepad E) EV_KEY (word_of_int (code (action bnd)))
                 (if (if active_low E then \<not> bit dm b else bit dm b) then 1 else 0),
               UinputWrite (ufd_gamepad E) EV_SYN SYN_REPORT 0,
               Transition (clk b) (I2cPinOrigin (b + 2)) (token (action bnd))
                 (if active_low E then \<not> bit dm b else bit dm b)
                 (DevCode Gamepad (code (action bnd)))])"
  using assms by (simp add: i2c_bit_step_def Let_def emit_action_key)

lemma digital_section_bit3:
  assumes "have_mask (i2c_state st)" "bit (last_mask (i2c_state st)) 3 \<noteq> bit dm 3"
    "map_of (button_bits (i2c_state st)) 3 = Some \<lparr>pin = 5, action = act\<rparr>"
    "type act = ButtonOrKey" "dev act = Gamepad"
    "0 \<le> ufd_gamepad E" "\<forall>fd. uinput_writable E fd"
  shows "\<exists>st' pre post. digital_section E clk dm st =
       Inr (st', pre @
         [UinputWrite (ufd_gamepad E) EV_KEY (word_of_int (code act))
            (if (if active_low E then \<not> bit dm 3 else bit dm 3) then 1 else 0),
          UinputWrite (ufd_gamepad E) EV_SYN SYN_REPORT 0,
          Transition (clk 3) (I2cPinOrigin 5) (token act)
            (if active_low E then \<not> bit dm 3 else bit dm 3)
            (DevCode Gamepad (code act))] @ post) \<and>
     pin_transitions 5 pre = [] \<and> pin_transitions 5 post = []"
proof -
  let ?ch = "dm XOR last_mask (i2c_state st)"
  let ?st1 = "st\<lparr>i2c_state := (i2c_state st)\<lparr>last_mask := dm, have_mask := True\<rparr>\<rparr>"
  have b3: "bit ?ch 3" using assms(2) by (auto simp: bit_xor_iff)
  then have nz: "?ch \<noteq> 0" by auto
  have ds: "digital_section E clk dm st = i2c_bits E clk dm ?ch [0..<12] ?st1"
    using assms(1) nz by (simp add: digital_section_def Let_def)
  obtain sa oa where a: "i2c_bits E clk dm ?ch [0..<3] ?st1 = Inr (sa, oa)"
    using i2c_bits_ok[OF assms(7)] by blast
  from i2c_bits_Inr[OF a, of 5] have sa: "i2c_state sa = i2c_state ?st1" and pa: "pin_transitions 5 oa = []"
    by auto
  have bb: "map_of (button_bits (i2c_state sa)) 3 = Some \<lparr>pin = 5, action = act\<rparr>"
    using sa assms(3) by simp
  let ?o3 = "[UinputWrite (ufd_gamepad E) EV_KEY (word_of_int (code act))
                 (if (if active_low E then \<not> bit dm 3 else bit dm 3) then 1 else 0),
               UinputWrite (ufd_gamepad E) EV_SYN SYN_REPORT 0,
               Transition (clk 3) (I2cPinOrigin 5) (token act)
                 (if active_low E then \<not> bit dm 3 else bit dm 3)
                 (DevCode Gamepad (code act))]"
  have step: "i2c_bit_step E clk dm ?ch 3 sa = Inr (sa, ?o3)"
    using i2c_bit_step_mapped_key[OF b3 bb, of E clk dm] assms(4,5,6,7) by simp
  obtain sc oc where c: "i2c_bits E clk dm ?ch [4..<12] sa = Inr (sc, oc)"
    using i2c_bits_ok[OF assms(7)] by blast
  from i2c_bits_Inr[OF c, of 5] have pc: "pin_transitions 5 oc = []" by auto
  have t: "i2c_bits E clk dm ?ch (3 # [4..<12]) sa = Inr (sc, ?o3 @ oc)"
    by (subst i2c_bits.simps(2)) (simp only: step c sum.case prod.case)
  have "i2c_bits E clk dm ?ch [0..<12] ?st1 = Inr (sc, oa @ ?o3 @ oc)"
    unfolding upt12 i2c_bits_append a by (simp only: sum.case prod.case t)
  with ds pa pc show ?thesis by metis
qed


subsection \<open>Auto-assignment\<close>

lemma candidates_filter: "candidates s e = filter (\<lambda>off. \<not> is_excluded off) [s..<Suc e]"
  unfolding candidates_def by (rule sorted_sort_id, rule sorted_wrt_filter, rule sorted_upt)

lemma distinct_candidates: "distinct (candidates s e)"
  by (simp add: candidates_filter)

lemma auto_pick_hit:
  "nxt idx \<notin> used \<Longrightarrow> auto_pick nxt used idx = (nxt idx, insert (nxt idx) used, idx + 1)"
  by simp

lemma auto_pick_exhausted:
  "\<forall>i. idx \<le> i \<and> i \<le> 2000 \<longrightarrow> nxt i \<in> used \<Longrightarrow> idx \<le> 2000 \<Longrightarrow>
   auto_pick nxt used idx = (nxt 2000, used, 2001)"
proof (induction nxt used idx rule: auto_pick.induct)
  case (1 nxt used auto_idx)
  show ?case
  proof (cases "auto_idx + 1 > 2000")
    case True
    with 1(3) have "auto_idx = 2000" by simp
    with 1(2) show ?thesis by (subst auto_pick.simps) simp
  next
    case False
    with 1 have "auto_pick nxt used (auto_idx + 1) = (nxt 2000, used, 2001)" by simp
    with False 1(2,3) show ?thesis by (subst auto_pick.simps) simp
  qed
qed

lemma auto_pick_least:
  "\<exists>i. idx \<le> i \<and> i \<le> 2000 \<and> nxt i \<notin> used \<Longrightarrow>
   \<exists>i0. idx \<le> i0 \<and> i0 \<le> 2000 \<and> nxt i0 \<notin> used \<and> (\<forall>j. idx \<le> j \<and> j < i0 \<longrightarrow> nxt j \<in> used) \<and>
      auto_pick nxt used idx = (nxt i0, insert (nxt i0) used, i0 + 1)"
proof (induction nxt used idx rule: auto_pick.induct)
  case (1 nxt used auto_idx)
  show ?case
  proof (cases "nxt auto_idx \<notin> used")
    case True
    from 1(2) have "auto_idx \<le> 2000" by auto
    with True show ?thesis
      by (intro exI[of _ auto_idx]) auto
  next
    case False
    from 1(2) obtain i where i: "auto_idx \<le> i" "i \<le> 2000" "nxt i \<notin> used" by blast
    with False have ne: "i \<noteq> auto_idx" by auto
    with i have lt: "\<not> auto_idx + 1 > 2000" "auto_idx + 1 \<le> i" by auto
    from 1(1)[OF _ lt(1)] False i lt obtain i0 where
      i0: "auto_idx + 1 \<le> i0" "i0 \<le> 2000" "nxt i0 \<notin> used"
        "\<forall>j. auto_idx + 1 \<le> j \<and> j < i0 \<longrightarrow> nxt j \<in> used"
        "auto_pick nxt used (auto_idx + 1) = (nxt i0, insert (nxt i0) used, i0 + 1)"
      by blast
    have "\<forall>j. auto_idx \<le> j \<and> j < i0 \<longrightarrow> nxt j \<in> used"
    proof (intro allI impI)
      fix j assume "auto_idx \<le> j \<and> j < i0"
      then show "nxt j \<in> used" using False i0(4) by (cases "j = auto_idx") auto
    qed
    moreover have "auto_pick nxt used auto_idx = (nxt i0, insert (nxt i0) used, i0 + 1)"
      using False lt(1) i0(5) by (subst auto_pick.simps) simp
    ultimately show ?thesis using i0(1,2,3) by (intro exI[of _ i0]) simp
  qed
qed

lemma pick_step:
  fixes N :: int
  assumes inj: "inj_on nxt {0..<N}" and idx: "0 \<le> idx" and N: "N \<le> 2001"
    and ne: "{i. idx \<le> i \<and> i < N \<and> nxt i \<notin> used} \<noteq> {}"
  shows "\<exists>i0. auto_pick nxt used idx = (nxt i0, insert (nxt i0) used, i0 + 1) \<and> nxt i0 \<notin> used \<and>
     0 \<le> i0 + 1 \<and>
     card {i. i0 + 1 \<le> i \<and> i < N \<and> nxt i \<notin> insert (nxt i0) used} =
       card {i. idx \<le> i \<and> i < N \<and> nxt i \<notin> used} - 1"
proof -
  from ne obtain i where i: "idx \<le> i" "i < N" "nxt i \<notin> used" by blast
  with N have "\<exists>i. idx \<le> i \<and> i \<le> 2000 \<and> nxt i \<notin> used" by (intro exI[of _ i]) simp
  from auto_pick_least[OF this] obtain i0 where
    i0: "idx \<le> i0" "i0 \<le> 2000" "nxt i0 \<notin> used" "\<forall>j. idx \<le> j \<and> j < i0 \<longrightarrow> nxt j \<in> used"
      "auto_pick nxt used idx = (nxt i0, insert (nxt i0) used, i0 + 1)" by blast
  have le: "i0 \<le> i" using i0(4) i by (meson not_le)
  then have i0N: "i0 < N" using i by simp
  let ?F = "{i. idx \<le> i \<and> i < N \<and> nxt i \<notin> used}"
  have fin: "finite ?F" by (rule finite_subset[of _ "{idx..<N}"]) auto
  have "{i. i0 + 1 \<le> i \<and> i < N \<and> nxt i \<notin> insert (nxt i0) used} = ?F - {i0}"
  proof (intro set_eqI iffI)
    fix x assume "x \<in> {i. i0 + 1 \<le> i \<and> i < N \<and> nxt i \<notin> insert (nxt i0) used}"
    then show "x \<in> ?F - {i0}" using i0(1) by auto
  next
    fix x assume x: "x \<in> ?F - {i0}"
    then have xs: "idx \<le> x" "nxt x \<notin> used" "x \<noteq> i0" by auto
    have "\<not> x < i0" using i0(4) xs(1,2) by blast
    with xs(3) have "i0 < x" by simp
    moreover have "nxt x \<noteq> nxt i0"
      using inj x i0N idx i0(1) by (auto simp: inj_on_def)
    ultimately show "x \<in> {i. i0 + 1 \<le> i \<and> i < N \<and> nxt i \<notin> insert (nxt i0) used}" using x by auto
  qed
  moreover have "i0 \<in> ?F" using i0 i0N by simp
  ultimately have "card {i. i0 + 1 \<le> i \<and> i < N \<and> nxt i \<notin> insert (nxt i0) used} = card ?F - 1"
    using fin by simp
  with i0 idx show ?thesis by (intro exI[of _ i0]) simp
qed

lemma auto_assign_buttons_fresh:
  fixes N :: int
  assumes inj: "inj_on next_auto_button_code {0..<N}" and N: "N \<le> 2001"
  shows "distinct offs \<Longrightarrow> 0 \<le> idx \<Longrightarrow>
    length (filter (\<lambda>x. map_of gm x = None) offs)
      \<le> card {i. idx \<le> i \<and> i < N \<and> next_auto_button_code i \<notin> ub} \<Longrightarrow>
    distinct (map (\<lambda>x. map_option code (map_of (fst (auto_assign Buttons offs (gm, ub, uk, idx))) x))
       (filter (\<lambda>x. map_of gm x = None) offs)) \<and>
    (\<forall>x\<in>set (filter (\<lambda>x. map_of gm x = None) offs).
       \<exists>a. map_of (fst (auto_assign Buttons offs (gm, ub, uk, idx))) x = Some a \<and> code a \<notin> ub) \<and>
    (\<forall>x. x \<notin> set (filter (\<lambda>x. map_of gm x = None) offs) \<longrightarrow>
       map_of (fst (auto_assign Buttons offs (gm, ub, uk, idx))) x = map_of gm x)"
proof (induction offs arbitrary: gm ub idx)
  case Nil
  then show ?case by simp
next
  case (Cons off offs)
  from Cons.prems(1) have d: "distinct offs" and nin: "off \<notin> set offs" by auto
  show ?case
  proof (cases "map_of gm off = None")
    case False
    then have step: "auto_assign Buttons (off # offs) (gm, ub, uk, idx) =
        auto_assign Buttons offs (gm, ub, uk, idx)"
      and U: "filter (\<lambda>x. map_of gm x = None) (off # offs) = filter (\<lambda>x. map_of gm x = None) offs"
      by simp_all
    from Cons.prems(3) have "length (filter (\<lambda>x. map_of gm x = None) offs)
       \<le> card {i. idx \<le> i \<and> i < N \<and> next_auto_button_code i \<notin> ub}"
      unfolding U .
    from Cons.IH[OF d Cons.prems(2) this] show ?thesis unfolding step U .
  next
    case True
    let ?U' = "filter (\<lambda>x. map_of gm x = None) offs"
    from True Cons.prems(3) have c1: "Suc (length ?U') \<le> card {i. idx \<le> i \<and> i < N \<and> next_auto_button_code i \<notin> ub}"
      by simp
    have ne: "{i. idx \<le> i \<and> i < N \<and> next_auto_button_code i \<notin> ub} \<noteq> {}"
    proof
      assume "{i. idx \<le> i \<and> i < N \<and> next_auto_button_code i \<notin> ub} = {}"
      with c1 show False by simp
    qed
    from pick_step[OF inj Cons.prems(2) N ne] obtain i0 where
      p: "auto_pick next_auto_button_code ub idx =
            (next_auto_button_code i0, insert (next_auto_button_code i0) ub, i0 + 1)"
      and fresh: "next_auto_button_code i0 \<notin> ub" and i0: "0 \<le> i0 + 1"
      and card: "card {i. i0 + 1 \<le> i \<and> i < N \<and> next_auto_button_code i \<notin> insert (next_auto_button_code i0) ub} =
         card {i. idx \<le> i \<and> i < N \<and> next_auto_button_code i \<notin> ub} - 1" by blast
    let ?c = "next_auto_button_code i0"
    let ?act = "\<lparr>type = ButtonOrKey, dev = Gamepad, code = ?c, hat_dir = Up, token = ''AUTO_BTN''\<rparr>"
    let ?gm1 = "AList.update off ?act gm"
    have m1: "map_of ?gm1 = (map_of gm)(off \<mapsto> ?act)" by (rule update_conv')
    have U1: "filter (\<lambda>x. map_of ?gm1 x = None) offs = ?U'"
      using nin by (intro filter_cong) (auto simp: m1)
    have step: "auto_assign Buttons (off # offs) (gm, ub, uk, idx) =
       auto_assign Buttons offs (?gm1, insert ?c ub, uk, i0 + 1)"
      using True p by simp
    let ?gm' = "fst (auto_assign Buttons offs (?gm1, insert ?c ub, uk, i0 + 1))"
    from c1 card have c2: "length (filter (\<lambda>x. map_of ?gm1 x = None) offs)
       \<le> card {i. i0 + 1 \<le> i \<and> i < N \<and> next_auto_button_code i \<notin> insert ?c ub}"
      unfolding U1 by simp
    from Cons.IH[OF d i0 c2] have
      ih1: "distinct (map (\<lambda>x. map_option code (map_of ?gm' x)) ?U')" and
      ih2: "\<forall>x\<in>set ?U'. \<exists>a. map_of ?gm' x = Some a \<and> code a \<notin> insert ?c ub" and
      ih3: "\<forall>x. x \<notin> set ?U' \<longrightarrow> map_of ?gm' x = map_of ?gm1 x"
      unfolding U1 by blast+
    have off: "map_of ?gm' off = Some ?act" using ih3 nin by (simp add: m1)
    have notc: "map_option code (map_of ?gm' off) \<notin> (\<lambda>x. map_option code (map_of ?gm' x)) ` set ?U'"
      using ih2 off by force
    have 1: "distinct (map (\<lambda>x. map_option code (map_of ?gm' x)) (off # ?U'))"
      using ih1 notc by simp
    have 2: "\<forall>x\<in>set (off # ?U'). \<exists>a. map_of ?gm' x = Some a \<and> code a \<notin> ub"
      using ih2 off fresh by auto
    have 3: "\<forall>x. x \<notin> set (off # ?U') \<longrightarrow> map_of ?gm' x = map_of gm x"
      using ih3 by (auto simp: m1)
    have U: "filter (\<lambda>x. map_of gm x = None) (off # offs) = off # ?U'" using True by simp
    show ?thesis unfolding step U using 1 2 3 by blast
  qed
qed

lemma auto_assign_keys_fresh:
  fixes N :: int
  assumes inj: "inj_on next_auto_key_code {0..<N}" and N: "N \<le> 2001"
  shows "distinct offs \<Longrightarrow> 0 \<le> idx \<Longrightarrow>
    length (filter (\<lambda>x. map_of gm x = None) offs)
      \<le> card {i. idx \<le> i \<and> i < N \<and> next_auto_key_code i \<notin> uk} \<Longrightarrow>
    distinct (map (\<lambda>x. map_option code (map_of (fst (auto_assign Keys offs (gm, ub, uk, idx))) x))
       (filter (\<lambda>x. map_of gm x = None) offs)) \<and>
    (\<forall>x\<in>set (filter (\<lambda>x. map_of gm x = None) offs).
       \<exists>a. map_of (fst (auto_assign Keys offs (gm, ub, uk, idx))) x = Some a \<and> code a \<notin> uk) \<and>
    (\<forall>x. x \<notin> set (filter (\<lambda>x. map_of gm x = None) offs) \<longrightarrow>
       map_of (fst (auto_assign Keys offs (gm, ub, uk, idx))) x = map_of gm x)"
proof (induction offs arbitrary: gm uk idx)
  case Nil
  then show ?case by simp
next
  case (Cons off offs)
  from Cons.prems(1) have d: "distinct offs" and nin: "off \<notin> set offs" by auto
  show ?case
  proof (cases "map_of gm off = None")
    case False
    then have step: "auto_assign Keys (off # offs) (gm, ub, uk, idx) =
        auto_assign Keys offs (gm, ub, uk, idx)"
      and U: "filter (\<lambda>x. map_of gm x = None) (off # offs) = filter (\<lambda>x. map_of gm x = None) offs"
      by simp_all
    from Cons.prems(3) have "length (filter (\<lambda>x. map_of gm x = None) offs)
       \<le> card {i. idx \<le> i \<and> i < N \<and> next_auto_key_code i \<notin> uk}"
      unfolding U .
    from Cons.IH[OF d Cons.prems(2) this] show ?thesis unfolding step U .
  next
    case True
    let ?U' = "filter (\<lambda>x. map_of gm x = None) offs"
    from True Cons.prems(3) have c1: "Suc (length ?U') \<le> card {i. idx \<le> i \<and> i < N \<and> next_auto_key_code i \<notin> uk}"
      by simp
    have ne: "{i. idx \<le> i \<and> i < N \<and> next_auto_key_code i \<notin> uk} \<noteq> {}"
    proof
      assume "{i. idx \<le> i \<and> i < N \<and> next_auto_key_code i \<notin> uk} = {}"
      with c1 show False by simp
    qed
    from pick_step[OF inj Cons.prems(2) N ne] obtain i0 where
      p: "auto_pick next_auto_key_code uk idx =
            (next_auto_key_code i0, insert (next_auto_key_code i0) uk, i0 + 1)"
      and fresh: "next_auto_key_code i0 \<notin> uk" and i0: "0 \<le> i0 + 1"
      and card: "card {i. i0 + 1 \<le> i \<and> i < N \<and> next_auto_key_code i \<notin> insert (next_auto_key_code i0) uk} =
         card {i. idx \<le> i \<and> i < N \<and> next_auto_key_code i \<notin> uk} - 1" by blast
    let ?c = "next_auto_key_code i0"
    let ?act = "\<lparr>type = ButtonOrKey, dev = Keyboard, code = ?c, hat_dir = Up, token = ''AUTO_KEY''\<rparr>"
    let ?gm1 = "AList.update off ?act gm"
    have m1: "map_of ?gm1 = (map_of gm)(off \<mapsto> ?act)" by (rule update_conv')
    have U1: "filter (\<lambda>x. map_of ?gm1 x = None) offs = ?U'"
      using nin by (intro filter_cong) (auto simp: m1)
    have step: "auto_assign Keys (off # offs) (gm, ub, uk, idx) =
       auto_assign Keys offs (?gm1, ub, insert ?c uk, i0 + 1)"
      using True p by simp
    let ?gm' = "fst (auto_assign Keys offs (?gm1, ub, insert ?c uk, i0 + 1))"
    from c1 card have c2: "length (filter (\<lambda>x. map_of ?gm1 x = None) offs)
       \<le> card {i. i0 + 1 \<le> i \<and> i < N \<and> next_auto_key_code i \<notin> insert ?c uk}"
      unfolding U1 by simp
    from Cons.IH[OF d i0 c2] have
      ih1: "distinct (map (\<lambda>x. map_option code (map_of ?gm' x)) ?U')" and
      ih2: "\<forall>x\<in>set ?U'. \<exists>a. map_of ?gm' x = Some a \<and> code a \<notin> insert ?c uk" and
      ih3: "\<forall>x. x \<notin> set ?U' \<longrightarrow> map_of ?gm' x = map_of ?gm1 x"
      unfolding U1 by blast+
    have off: "map_of ?gm' off = Some ?act" using ih3 nin by (simp add: m1)
    have notc: "map_option code (map_of ?gm' off) \<notin> (\<lambda>x. map_option code (map_of ?gm' x)) ` set ?U'"
      using ih2 off by force
    have 1: "distinct (map (\<lambda>x. map_option code (map_of ?gm' x)) (off # ?U'))"
      using ih1 notc by simp
    have 2: "\<forall>x\<in>set (off # ?U'). \<exists>a. map_of ?gm' x = Some a \<and> code a \<notin> uk"
      using ih2 off fresh by auto
    have 3: "\<forall>x. x \<notin> set (off # ?U') \<longrightarrow> map_of ?gm' x = map_of gm x"
      using ih3 by (auto simp: m1)
    have U: "filter (\<lambda>x. map_of gm x = None) (off # offs) = off # ?U'" using True by simp
    show ?thesis unfolding step U using 1 2 3 by blast
  qed
qed


lemma inj_on_int_range:
  assumes "distinct (map (\<lambda>k. f (int k)) [0..<n])"
  shows "inj_on f {0..<int n}"
proof -
  from assms have "inj_on (\<lambda>k. f (int k)) {0..<n}" by (simp add: distinct_map)
  then have "inj_on f (int ` {0..<n})" by (auto simp: inj_on_def)
  moreover have "int ` {0..<n} = {0..<int n}" by (simp add: image_int_atLeastLessThan)
  ultimately show ?thesis by simp
qed

lemma button_cycle_distinct: "distinct (map (\<lambda>k. next_auto_button_code (int k)) [0..<23])"
  by (simp add: upt_rec next_auto_button_code_def kList_def BTN_0_def BTN_SOUTH_def BTN_EAST_def
      BTN_NORTH_def BTN_WEST_def BTN_TL_def BTN_TR_def BTN_TL2_def BTN_TR2_def BTN_SELECT_def
      BTN_START_def BTN_MODE_def BTN_THUMBL_def BTN_THUMBR_def)

lemma key_cycle_distinct: "distinct (map (\<lambda>k. next_auto_key_code (int k)) [0..<48])"
  by (simp add: upt_rec next_auto_key_code_def KEY_A_def KEY_0_def KEY_1_def KEY_F1_def)

lemma free_codes_card:
  "free_codes nxt n used = card {i. 0 \<le> i \<and> i < int n \<and> nxt i \<notin> used}"
proof -
  have "{i. i < length [0..<n] \<and> nxt (int ([0..<n] ! i)) \<notin> used} = {k. k < n \<and> nxt (int k) \<notin> used}"
    by auto
  then have "free_codes nxt n used = card {k. k < n \<and> nxt (int k) \<notin> used}"
    unfolding free_codes_def length_filter_conv_card by simp
  also have "\<dots> = card (int ` {k. k < n \<and> nxt (int k) \<notin> used})"
    by (simp add: card_image inj_on_def)
  also have "int ` {k. k < n \<and> nxt (int k) \<notin> used} = {i. 0 \<le> i \<and> i < int n \<and> nxt i \<notin> used}"
  proof (intro set_eqI iffI)
    fix x assume "x \<in> int ` {k. k < n \<and> nxt (int k) \<notin> used}"
    then show "x \<in> {i. 0 \<le> i \<and> i < int n \<and> nxt i \<notin> used}" by auto
  next
    fix x assume "x \<in> {i. 0 \<le> i \<and> i < int n \<and> nxt i \<notin> used}"
    then have "nat x < n \<and> nxt (int (nat x)) \<notin> used \<and> x = int (nat x)" by auto
    then show "x \<in> int ` {k. k < n \<and> nxt (int k) \<notin> used}" by blast
  qed
  finally show ?thesis .
qed
section \<open>The claims\<close>

subsection \<open>Hat vector\<close>

text \<open>
  Claim C6. For every combination of the four directional press-states the two
  components of the recomputed hat vector are in \<open>{-1, 0, 1}\<close>, and opposite
  directions pressed together give 0 on their axis (Up and Down give \<open>Y = 0\<close>, Left and
  Right give \<open>X = 0\<close>). With a gamepad device that has a hat, \<^verbatim>\<open>recompute_hat\<close> leaves
  exactly this vector in \<open>last_hat_x\<close>, \<open>last_hat_y\<close>.
\<close>

theorem hat_components_in_range:
  assumes "0 \<le> ufd_gamepad E" "need_hat E" "uinput_writable E (ufd_gamepad E)"
  shows "fst (hat_vector u d l r) \<in> {- 1, 0, 1} \<and> snd (hat_vector u d l r) \<in> {- 1, 0, 1} \<and>
     snd (hat_vector True True l r) = 0 \<and> fst (hat_vector u d True True) = 0 \<and>
     (\<exists>st' out. recompute_hat E st = Inr (st', out) \<and>
        last_hat_x st' = fst (hat_vector (hat_up st) (hat_down st) (hat_left st) (hat_right st)) \<and>
        last_hat_y st' = snd (hat_vector (hat_up st) (hat_down st) (hat_left st) (hat_right st)))"
proof -
  obtain st' out where r: "recompute_hat E st = Inr (st', out)"
    using recompute_hat_ok[OF assms(3)] by blast
  from recompute_hat_last[OF r assms(1,2)] r hat_vector_range[of u d l r] show ?thesis by blast
qed

theorem hat_components_in_range_witness:
  "0 \<le> ufd_gamepad ex_env \<and> need_hat ex_env \<and> uinput_writable ex_env (ufd_gamepad ex_env) \<and>
   snd (hat_vector True True False False) = 0 \<and>
   (\<exists>st' out. recompute_hat ex_env (ex_state\<lparr>hat_up := True, hat_down := True, hat_right := True\<rparr>) = Inr (st', out) \<and>
      last_hat_x st' = 1 \<and> last_hat_y st' = 0)"
proof -
  have h: "0 \<le> ufd_gamepad ex_env" "need_hat ex_env" "uinput_writable ex_env (ufd_gamepad ex_env)"
    by (simp_all add: ex_env_def)
  from hat_components_in_range[OF h, of True True False False
      "ex_state\<lparr>hat_up := True, hat_down := True, hat_right := True\<rparr>"]
  show ?thesis using h by (simp add: hat_vector_def ex_state_def)
qed

subsection \<open>Analog auto-calibration\<close>

text \<open>
  Claim C4. Once the calibration of an axis is initialized, a decoded frame never
  increases \<open>min_seen\<close> and never decreases \<open>max_seen\<close> of that axis, and the window
  afterwards contains the raw sample of the frame.
\<close>

theorem calibration_window_only_widens:
  assumes "enabled (i2c_state st)" "0 \<le> ufd_gamepad E" "\<forall>fd. uinput_writable E fd"
    "k < length (analogs (i2c_state st))"
    "initialized (analogs (i2c_state st) ! k)"
    "raw_index (analogs (i2c_state st) ! k) < kI2cAnalogValueCount"
  shows "\<exists>st' out. handle_i2c E clk (int kI2cFrameBytes, buf) st = Inr (st', out) \<and>
     length (analogs (i2c_state st')) = length (analogs (i2c_state st)) \<and>
     initialized (analogs (i2c_state st') ! k) \<and>
     min_seen (analogs (i2c_state st') ! k) \<le> min_seen (analogs (i2c_state st) ! k) \<and>
     max_seen (analogs (i2c_state st) ! k) \<le> max_seen (analogs (i2c_state st') ! k) \<and>
     min_seen (analogs (i2c_state st') ! k) \<le> frame_samples buf ! raw_index (analogs (i2c_state st) ! k) \<and>
     frame_samples buf ! raw_index (analogs (i2c_state st) ! k) \<le> max_seen (analogs (i2c_state st') ! k)"
proof -
  let ?a = "analogs (i2c_state st) ! k"
  let ?s = "frame_samples buf ! raw_index ?a"
  obtain st' out where h: "handle_i2c E clk (int kI2cFrameBytes, buf) st = Inr (st', out)"
    using handle_i2c_ok[OF assms(3)] by blast
  from handle_i2c_frame_Inr[OF h assms(1)] obtain as' oa od where
    a: "analog_section E (frame_samples buf) (analogs (i2c_state st)) = Inr (as', oa)" and
    d: "digital_section E clk (frame_mask buf)
        (st\<lparr>i2c_state := (i2c_state st)\<lparr>read_error_logged := False, analogs := as'\<rparr>\<rparr>) = Inr (st', od)"
    by blast
  from digital_section_Inr[OF d] have an: "analogs (i2c_state st') = as'" by simp
  from analog_section_Inr[OF a] assms(2,4) obtain o1 c1 where
    len: "length as' = length (analogs (i2c_state st))" and
    s: "axis_step E (frame_samples buf) ?a = Inr (as' ! k, o1, c1)" by blast
  from axis_step_Inr[OF s] assms(6) have
    "min_seen (as' ! k) = min_seen (calibrate ?a ?s)"
    "max_seen (as' ! k) = max_seen (calibrate ?a ?s)"
    "initialized (as' ! k) = initialized (calibrate ?a ?s)" by simp_all
  with calibrate_widens[OF assms(5), of ?s] h an len show ?thesis by simp
qed

theorem calibration_window_only_widens_witness:
  "enabled (i2c_state ex_state_cal) \<and> 0 \<le> ufd_gamepad ex_env \<and>
   (\<forall>fd. uinput_writable ex_env fd) \<and>
   0 < length (analogs (i2c_state ex_state_cal)) \<and>
   initialized (analogs (i2c_state ex_state_cal) ! 0) \<and>
   raw_index (analogs (i2c_state ex_state_cal) ! 0) < kI2cAnalogValueCount \<and>
   (\<exists>st' out. handle_i2c ex_env ex_clk (int kI2cFrameBytes, frame_a0_5) ex_state_cal = Inr (st', out) \<and>
      min_seen (analogs (i2c_state st') ! 0) \<le> 10 \<and>
      756 \<le> max_seen (analogs (i2c_state st') ! 0) \<and>
      min_seen (analogs (i2c_state st') ! 0) \<le> frame_samples frame_a0_5 ! 0)"
proof -
  have h: "enabled (i2c_state ex_state_cal)" "0 \<le> ufd_gamepad ex_env"
    "\<forall>fd. uinput_writable ex_env fd" "0 < length (analogs (i2c_state ex_state_cal))"
    "initialized (analogs (i2c_state ex_state_cal) ! 0)"
    "raw_index (analogs (i2c_state ex_state_cal) ! 0) < kI2cAnalogValueCount"
    by (simp_all add: ex_state_cal_def ex_state_def ex_i2c_def ex_axis_def ex_env_def
        kI2cAnalogValueCount_def)
  have v: "min_seen (analogs (i2c_state ex_state_cal) ! 0) = 10"
    "max_seen (analogs (i2c_state ex_state_cal) ! 0) = 756"
    "raw_index (analogs (i2c_state ex_state_cal) ! 0) = 0"
    by (simp_all add: ex_state_cal_def ex_state_def ex_i2c_def ex_axis_def ex_env_def
        kI2cAnalogValueCount_def)
  from calibration_window_only_widens[OF h, of ex_clk frame_a0_5]
  show ?thesis using h unfolding v by blast
qed

text \<open>
  Claim C5. For a fixed calibration state the scaling is monotonic non-decreasing: two
  raw samples \<open>r1 < r2\<close> within \<open>[min_seen, max_seen]\<close> leave the calibration as it
  is and \<open>scaled r1 \<le> scaled r2\<close>; every scaled value, and so every value an axis
  step stores and writes, lies in \<open>[0, 100]\<close>.
\<close>

theorem analog_scaling_monotone:
  assumes "initialized a" "min_seen a \<le> r1" "r1 < r2" "r2 \<le> max_seen a"
  shows "calibrate a r1 = a \<and> calibrate a r2 = a \<and>
     analog_scale (min_seen a) (max_seen a) r1 \<le> analog_scale (min_seen a) (max_seen a) r2 \<and>
     0 \<le> analog_scale mn mx r \<and> analog_scale mn mx r \<le> 100 \<and>
     (\<forall>a' out c. raw_index a0 < kI2cAnalogValueCount \<and> axis_step E raw a0 = Inr (a', out, c) \<longrightarrow>
        0 \<le> last_scaled a' \<and> last_scaled a' \<le> 100)"
proof -
  have le: "r1 \<le> r2" "min_seen a \<le> r2" "r1 \<le> max_seen a" using assms by auto
  have b: "0 \<le> last_scaled a' \<and> last_scaled a' \<le> 100"
    if "raw_index a0 < kI2cAnalogValueCount" "axis_step E raw a0 = Inr (a', out, c)" for a' out c
    using axis_step_Inr[OF that(2)] that(1) scale_bounds by simp
  show ?thesis
    using calibrate_id[OF assms(1,2) le(3)] calibrate_id[OF assms(1) le(2) assms(4)]
      scale_mono[OF assms(2) le(1) assms(4)] scale_bounds[of mn mx r] b by blast
qed

theorem analog_scaling_monotone_witness:
  "initialized ex_axis \<and> min_seen ex_axis \<le> 10 \<and> (10 :: u16) < 520 \<and> 520 \<le> max_seen ex_axis \<and>
   calibrate ex_axis 520 = ex_axis \<and>
   analog_scale (min_seen ex_axis) (max_seen ex_axis) 10 \<le>
     analog_scale (min_seen ex_axis) (max_seen ex_axis) 520 \<and>
   analog_scale (min_seen ex_axis) (max_seen ex_axis) 520 = 68"
proof -
  have h: "initialized ex_axis" "min_seen ex_axis \<le> 10" "(10 :: u16) < 520" "520 \<le> max_seen ex_axis"
    by (simp_all add: ex_axis_def)
  have v: "analog_scale (min_seen ex_axis) (max_seen ex_axis) 520 = 68"
    by (simp add: ex_axis_def analog_scale_def analog_span_def clamp_int_def c_div_def Let_def
        kI2cAnalogMinSpan_def)
  from analog_scaling_monotone[OF h]
  show ?thesis using h v by blast
qed

subsection \<open>Peripheral poller\<close>

text \<open>
  Claim C8. The first decoded frame (no mask stored yet) produces no digital
  transition, whatever its bitmask: no press or release is logged, for a mapped or an
  unmapped pin, no key event is written, and the hat state is untouched. The frame only
  stores its bitmask as the baseline of the next diff.
\<close>

theorem first_frame_no_transitions:
  assumes "enabled (i2c_state st)" "\<not> have_mask (i2c_state st)"
    "uinput_writable E (ufd_gamepad E)"
  shows "\<exists>st' out. handle_i2c E clk (int kI2cFrameBytes, buf) st = Inr (st', out) \<and>
     filter is_digital_output out = [] \<and>
     have_mask (i2c_state st') \<and> last_mask (i2c_state st') = frame_mask buf \<and>
     hat_up st' = hat_up st \<and> hat_down st' = hat_down st \<and>
     hat_left st' = hat_left st \<and> hat_right st' = hat_right st \<and>
     last_hat_x st' = last_hat_x st \<and> last_hat_y st' = last_hat_y st \<and>
     last_accept_ns st' = last_accept_ns st"
proof -
  obtain as' oa where a: "analog_section E (frame_samples buf) (analogs (i2c_state st)) = Inr (as', oa)"
    using analog_section_ok assms(3) by blast
  from analog_section_Inr[OF a] have "filter is_digital_output oa = []"
    by (auto simp: filter_empty_conv list_all_iff)
  with a assms(1,2) show ?thesis
    by (simp add: handle_i2c_def Let_def digital_section_first)
qed

theorem first_frame_no_transitions_witness:
  "enabled (i2c_state ex_state) \<and> \<not> have_mask (i2c_state ex_state) \<and>
   uinput_writable ex_env (ufd_gamepad ex_env) \<and>
   (\<exists>st' out. handle_i2c ex_env ex_clk (int kI2cFrameBytes, frame_bit3) ex_state = Inr (st', out) \<and>
      filter is_digital_output out = [] \<and> have_mask (i2c_state st') \<and>
      last_mask (i2c_state st') = 8)"
proof -
  have h: "enabled (i2c_state ex_state)" "\<not> have_mask (i2c_state ex_state)"
    "uinput_writable ex_env (ufd_gamepad ex_env)"
    by (simp_all add: ex_state_def ex_i2c_def ex_env_def)
  have m: "frame_mask frame_bit3 = 8"
    by (simp add: frame_mask_def frame_bit3_def get_u16_le_def kI2cAnalogValueCount_def)
  from first_frame_no_transitions[OF h, of ex_clk frame_bit3]
  show ?thesis using h unfolding m by blast
qed

text \<open>
  Claim C9. A read that does not return the frame byte count skips the poll cycle: the
  handler returns (it never dies), nothing is emitted, and the state is unchanged but
  for the flag that suppresses the warning. The warning is printed by the first failure
  only; a following failure prints nothing; a successful read clears the flag, so that
  the next failure is reported again.
\<close>

theorem i2c_read_failure_transient:
  assumes "enabled (i2c_state st)" "n \<noteq> int kI2cFrameBytes" "n' \<noteq> int kI2cFrameBytes"
  shows "\<exists>st1. st1 = st\<lparr>i2c_state := (i2c_state st)\<lparr>read_error_logged := True\<rparr>\<rparr> \<and>
     handle_i2c E clk (n, buf) st =
       Inr (st1, if read_error_logged (i2c_state st) then [] else [WarnReadFailed n]) \<and>
     handle_i2c E clk' (n', buf') st1 = Inr (st1, []) \<and>
     (\<forall>st2 out. handle_i2c E clk' (int kI2cFrameBytes, buf') st1 = Inr (st2, out) \<longrightarrow>
        \<not> read_error_logged (i2c_state st2) \<and>
        (\<exists>st3. handle_i2c E clk (n', buf) st2 = Inr (st3, [WarnReadFailed n'])))"
proof -
  let ?st1 = "st\<lparr>i2c_state := (i2c_state st)\<lparr>read_error_logged := True\<rparr>\<rparr>"
  have a: "handle_i2c E clk (n, buf) st =
       Inr (?st1, if read_error_logged (i2c_state st) then [] else [WarnReadFailed n])"
    using assms by (simp add: handle_i2c_def)
  have b: "handle_i2c E clk' (n', buf') ?st1 = Inr (?st1, [])"
    using assms by (simp add: handle_i2c_def)
  have c: "\<not> read_error_logged (i2c_state st2) \<and>
        (\<exists>st3. handle_i2c E clk (n', buf) st2 = Inr (st3, [WarnReadFailed n']))"
    if h: "handle_i2c E clk' (int kI2cFrameBytes, buf') ?st1 = Inr (st2, out)" for st2 out
  proof -
    from handle_i2c_frame_Inr[OF h] assms(1) obtain as' od where
      "digital_section E clk' (frame_mask buf')
        (?st1\<lparr>i2c_state := (i2c_state ?st1)\<lparr>read_error_logged := False, analogs := as'\<rparr>\<rparr>) = Inr (st2, od)"
      by auto
    from digital_section_Inr[OF this] assms(1)
    have "\<not> read_error_logged (i2c_state st2)" "enabled (i2c_state st2)" by simp_all
    then show ?thesis using assms(3) by (simp add: handle_i2c_def)
  qed
  show ?thesis using a b c by blast
qed

theorem i2c_read_failure_transient_witness:
  "enabled (i2c_state ex_state) \<and> (7 :: int) \<noteq> int kI2cFrameBytes \<and>
   (- 1 :: int) \<noteq> int kI2cFrameBytes \<and>
   handle_i2c ex_env ex_clk (7, frame_zero) ex_state =
     Inr (ex_state\<lparr>i2c_state := (i2c_state ex_state)\<lparr>read_error_logged := True\<rparr>\<rparr>,
          [WarnReadFailed 7]) \<and>
   handle_i2c ex_env ex_clk (- 1, frame_zero)
       (ex_state\<lparr>i2c_state := (i2c_state ex_state)\<lparr>read_error_logged := True\<rparr>\<rparr>) =
     Inr (ex_state\<lparr>i2c_state := (i2c_state ex_state)\<lparr>read_error_logged := True\<rparr>\<rparr>, [])"
proof -
  have h: "enabled (i2c_state ex_state)" "(7 :: int) \<noteq> int kI2cFrameBytes"
    "(- 1 :: int) \<noteq> int kI2cFrameBytes"
    by (simp_all add: ex_state_def ex_i2c_def kI2cFrameBytes_def kI2cAnalogValueCount_def)
  have f: "\<not> read_error_logged (i2c_state ex_state)" by (simp add: ex_state_def ex_i2c_def)
  from i2c_read_failure_transient[OF h, of ex_env ex_clk frame_zero ex_clk frame_zero]
  show ?thesis using h f by auto
qed

text \<open>
  Claim C1, as stated, fails: with pin D5 mapped to \<^verbatim>\<open>BTN_SOUTH\<close> and active-low in
  effect, bit 3 going from 0 to 1 between two decoded frames is a release, not a press.
  The run below starts from the state that \<^verbatim>\<open>D5 BTN_SOUTH\<close> produces; the second frame
  writes the key event with value 0 and logs UP.
\<close>

theorem d5_rising_bit_counterexample:
  "active_low ex_env \<and>
   init_i2c_state ''/dev/i2c-1'' True True True [(5, btn_south_action)] = Inr (i2c_state ex_state_d5) \<and>
   \<not> bit (frame_mask frame_zero) 3 \<and> bit (frame_mask frame_bit3) 3 \<and>
   handle_i2c ex_env ex_clk (12, frame_zero) ex_state_d5 = Inr (ex_state_d5_low, []) \<and>
   handle_i2c ex_env ex_clk (12, frame_bit3) ex_state_d5_low =
     Inr (ex_state_d5_high,
          [UinputWrite 3 EV_KEY 304 0, UinputWrite 3 EV_SYN SYN_REPORT 0,
           Transition 0 (I2cPinOrigin 5) ''BTN_SOUTH'' False (DevCode Gamepad BTN_SOUTH)])"
proof -
  have m: "frame_mask [0, 0, 0, 0, 0, 0, 0, 0, 0, 0, 0, 0] = 0"
    "frame_mask [0, 0, 0, 0, 0, 0, 0, 0, 0, 0, 8, 0] = 8"
    by (simp_all add: frame_mask_def get_u16_le_def kI2cAnalogValueCount_def)
  have a: "active_low ex_env" by (simp add: ex_env_def)
  have i: "init_i2c_state ''/dev/i2c-1'' True True True [(5, btn_south_action)] = Inr (i2c_state ex_state_d5)"
    by (simp add: init_i2c_state_def I2cState_default_def ex_env_def ex_state_def ex_state_d5_def ex_state_d5_low_def
        ex_state_d5_high_def ex_i2c_d5_def ex_clk_def btn_south_action_def frame_zero_def
        frame_bit3_def kI2cFrameBytes_def kI2cAnalogValueCount_def)
  have b: "\<not> bit (frame_mask frame_zero) 3" "bit (frame_mask frame_bit3) 3"
    by (simp_all add: frame_zero_def frame_bit3_def m bit_numeral_simps)
  have f1: "handle_i2c ex_env ex_clk (12, frame_zero) ex_state_d5 = Inr (ex_state_d5_low, [])"
    by (simp add: handle_i2c_def ex_env_def ex_state_def ex_state_d5_def ex_state_d5_low_def
        ex_state_d5_high_def ex_i2c_d5_def ex_clk_def btn_south_action_def frame_zero_def
        frame_bit3_def kI2cFrameBytes_def kI2cAnalogValueCount_def m analog_section_def digital_section_def Let_def)
  have f2: "handle_i2c ex_env ex_clk (12, frame_bit3) ex_state_d5_low =
     Inr (ex_state_d5_high,
          [UinputWrite 3 EV_KEY 304 0, UinputWrite 3 EV_SYN SYN_REPORT 0,
           Transition 0 (I2cPinOrigin 5) ''BTN_SOUTH'' False (DevCode Gamepad BTN_SOUTH)])"
    by (simp add: handle_i2c_def ex_env_def ex_state_def ex_state_d5_def ex_state_d5_low_def
        ex_state_d5_high_def ex_i2c_d5_def ex_clk_def btn_south_action_def frame_zero_def
        frame_bit3_def kI2cFrameBytes_def kI2cAnalogValueCount_def m analog_section_def digital_section_def Let_def
        upt_rec i2c_bit_step_def emit_action_def uinput_key_def uinput_emit_def uinput_syn_def
        seq_out_def BTN_SOUTH_def bit_numeral_simps)
  show ?thesis using a i b f1 f2 by simp
qed

text \<open>
  Claim C1, amended. If the mapping maps peripheral pin D5 to \<^verbatim>\<open>BTN_SOUTH\<close>, active-low
  is in effect, and between two consecutively decoded frames bit 3 of the bitmask
  changes, then the second frame emits exactly one transition for that pin, routed to the
  gamepad action \<^verbatim>\<open>BTN_SOUTH\<close>: a release (UP, key event of value 0) when the bit changes
  from 0 to 1, a press (DOWN, key event of value 1) when it changes from 1 to 0. The key
  event and its synchronization marker are written right before the line is logged, and
  nothing else in the output of the frame is about that pin.
\<close>

theorem d5_active_low_transition:
  assumes "init_i2c_state path open_ok slave_ok dis m = Inr s0" "path \<noteq> []"
    "distinct (map fst m)" "map_of m 5 = Some act"
    "type act = ButtonOrKey" "dev act = Gamepad" "code act = BTN_SOUTH"
    "button_bits (i2c_state st) = button_bits s0" "enabled (i2c_state st)"
    "active_low E" "0 \<le> ufd_gamepad E" "\<forall>fd. uinput_writable E fd"
    "bit (frame_mask f1) 3 \<noteq> bit (frame_mask f2) 3"
  shows "\<exists>st1 o1 st2 o2 pre post.
     handle_i2c E clk1 (int kI2cFrameBytes, f1) st = Inr (st1, o1) \<and>
     handle_i2c E clk2 (int kI2cFrameBytes, f2) st1 = Inr (st2, o2) \<and>
     pin_transitions 5 o2 =
       [Transition (clk2 3) (I2cPinOrigin 5) (token act) (\<not> bit (frame_mask f2) 3)
          (DevCode Gamepad BTN_SOUTH)] \<and>
     o2 = pre @
       [UinputWrite (ufd_gamepad E) EV_KEY (word_of_int BTN_SOUTH)
          (if bit (frame_mask f2) 3 then 0 else 1),
        UinputWrite (ufd_gamepad E) EV_SYN SYN_REPORT 0,
        Transition (clk2 3) (I2cPinOrigin 5) (token act) (\<not> bit (frame_mask f2) 3)
          (DevCode Gamepad BTN_SOUTH)] @ post \<and>
     pin_transitions 5 pre = [] \<and> pin_transitions 5 post = []"
proof -
  from init_button_bits[OF assms(1,2,3,4)] assms(8)
  have bb: "map_of (button_bits (i2c_state st)) 3 = Some \<lparr>pin = 5, action = act\<rparr>" by simp
  obtain st1 o1 where h1: "handle_i2c E clk1 (int kI2cFrameBytes, f1) st = Inr (st1, o1)"
    using handle_i2c_ok[OF assms(12)] by blast
  from handle_i2c_frame_Inr[OF h1 assms(9)] obtain as1 od1 where
    "digital_section E clk1 (frame_mask f1)
        (st\<lparr>i2c_state := (i2c_state st)\<lparr>read_error_logged := False, analogs := as1\<rparr>\<rparr>) = Inr (st1, od1)"
    by blast
  from digital_section_Inr[OF this]
  have s1: "i2c_state st1 = (i2c_state st)\<lparr>read_error_logged := False, analogs := as1,
       last_mask := frame_mask f1, have_mask := True\<rparr>" by simp
  obtain as2 oa2 where a2: "analog_section E (frame_samples f2) (analogs (i2c_state st1)) = Inr (as2, oa2)"
    using analog_section_ok assms(12) by blast
  from analog_section_Inr[OF a2] have pa: "pin_transitions 5 oa2 = []"
    by (simp add: pin_transitions_not_digital)
  let ?st1' = "st1\<lparr>i2c_state := (i2c_state st1)\<lparr>read_error_logged := False, analogs := as2\<rparr>\<rparr>"
  let ?t = "Transition (clk2 3) (I2cPinOrigin 5) (token act) (\<not> bit (frame_mask f2) 3)
          (DevCode Gamepad BTN_SOUTH)"
  let ?o3 = "[UinputWrite (ufd_gamepad E) EV_KEY (word_of_int BTN_SOUTH)
          (if bit (frame_mask f2) 3 then 0 else 1),
        UinputWrite (ufd_gamepad E) EV_SYN SYN_REPORT 0, ?t]"
  have "\<exists>st' pre post. digital_section E clk2 (frame_mask f2) ?st1' =
       Inr (st', pre @
         [UinputWrite (ufd_gamepad E) EV_KEY (word_of_int (code act))
            (if (if active_low E then \<not> bit (frame_mask f2) 3 else bit (frame_mask f2) 3) then 1 else 0),
          UinputWrite (ufd_gamepad E) EV_SYN SYN_REPORT 0,
          Transition (clk2 3) (I2cPinOrigin 5) (token act)
            (if active_low E then \<not> bit (frame_mask f2) 3 else bit (frame_mask f2) 3)
            (DevCode Gamepad (code act))] @ post) \<and>
     pin_transitions 5 pre = [] \<and> pin_transitions 5 post = []"
    by (rule digital_section_bit3) (use s1 bb assms in simp_all)
  then obtain st2 pre post where
    d0: "digital_section E clk2 (frame_mask f2) ?st1' =
       Inr (st2, pre @
         [UinputWrite (ufd_gamepad E) EV_KEY (word_of_int (code act))
            (if (if active_low E then \<not> bit (frame_mask f2) 3 else bit (frame_mask f2) 3) then 1 else 0),
          UinputWrite (ufd_gamepad E) EV_SYN SYN_REPORT 0,
          Transition (clk2 3) (I2cPinOrigin 5) (token act)
            (if active_low E then \<not> bit (frame_mask f2) 3 else bit (frame_mask f2) 3)
            (DevCode Gamepad (code act))] @ post)"
    and pp: "pin_transitions 5 pre = []" "pin_transitions 5 post = []"
    by blast
  have d2: "digital_section E clk2 (frame_mask f2) ?st1' = Inr (st2, pre @ ?o3 @ post)"
    using d0 assms(7,10) by (cases "bit (frame_mask f2) 3") simp_all
  let ?lg = "if i2c_log_samples E then [LogRaw (frame_samples f2) (frame_mask f2)] else []"
  have en1: "enabled (i2c_state st1)" using s1 assms(9) by simp
  have h2: "handle_i2c E clk2 (int kI2cFrameBytes, f2) st1 =
     Inr (st2, (?lg @ oa2 @ pre) @ ?o3 @ post)"
    using en1 a2 d2 by (simp add: handle_i2c_def Let_def)
  have plg: "pin_transitions 5 (?lg @ oa2 @ pre) = []"
    using pa pp(1) by (simp add: pin_transitions_def)
  have pt: "pin_transitions 5 ((?lg @ oa2 @ pre) @ ?o3 @ post) = [?t]"
    using pa pp by (simp add: pin_transitions_def)
  from h1 h2 pt plg pp(2) show ?thesis by blast
qed

theorem d5_active_low_transition_witness:
  "init_i2c_state ''/dev/i2c-1'' True True True [(5, btn_south_action)] = Inr ex_i2c_d5 \<and>
   ''/dev/i2c-1'' \<noteq> [] \<and> distinct (map fst [(5 :: nat, btn_south_action)]) \<and>
   map_of [(5 :: nat, btn_south_action)] 5 = Some btn_south_action \<and>
   type btn_south_action = ButtonOrKey \<and> dev btn_south_action = Gamepad \<and>
   code btn_south_action = BTN_SOUTH \<and>
   button_bits (i2c_state ex_state_d5) = button_bits ex_i2c_d5 \<and>
   enabled (i2c_state ex_state_d5) \<and> active_low ex_env \<and> 0 \<le> ufd_gamepad ex_env \<and>
   (\<forall>fd. uinput_writable ex_env fd) \<and>
   bit (frame_mask frame_zero) 3 \<noteq> bit (frame_mask frame_bit3) 3 \<and>
   (\<exists>st1 o1 st2 o2 pre post.
      handle_i2c ex_env ex_clk (int kI2cFrameBytes, frame_zero) ex_state_d5 = Inr (st1, o1) \<and>
      handle_i2c ex_env ex_clk (int kI2cFrameBytes, frame_bit3) st1 = Inr (st2, o2) \<and>
      pin_transitions 5 o2 =
        [Transition 0 (I2cPinOrigin 5) ''BTN_SOUTH'' False (DevCode Gamepad BTN_SOUTH)] \<and>
      o2 = pre @
        [UinputWrite 3 EV_KEY (word_of_int BTN_SOUTH) 0, UinputWrite 3 EV_SYN SYN_REPORT 0,
         Transition 0 (I2cPinOrigin 5) ''BTN_SOUTH'' False (DevCode Gamepad BTN_SOUTH)] @ post) \<and>
   (\<exists>st1 o1 st2 o2 pre post.
      handle_i2c ex_env ex_clk (int kI2cFrameBytes, frame_bit3) ex_state_d5 = Inr (st1, o1) \<and>
      handle_i2c ex_env ex_clk (int kI2cFrameBytes, frame_zero) st1 = Inr (st2, o2) \<and>
      pin_transitions 5 o2 =
        [Transition 0 (I2cPinOrigin 5) ''BTN_SOUTH'' True (DevCode Gamepad BTN_SOUTH)] \<and>
      o2 = pre @
        [UinputWrite 3 EV_KEY (word_of_int BTN_SOUTH) 1, UinputWrite 3 EV_SYN SYN_REPORT 0,
         Transition 0 (I2cPinOrigin 5) ''BTN_SOUTH'' True (DevCode Gamepad BTN_SOUTH)] @ post)"
proof -
  have m: "frame_mask [0, 0, 0, 0, 0, 0, 0, 0, 0, 0, 0, 0] = 0"
    "frame_mask [0, 0, 0, 0, 0, 0, 0, 0, 0, 0, 8, 0] = 8"
    by (simp_all add: frame_mask_def get_u16_le_def kI2cAnalogValueCount_def)
  have b: "bit (frame_mask frame_zero) 3 = False" "bit (frame_mask frame_bit3) 3 = True"
    by (simp_all add: frame_zero_def frame_bit3_def m bit_numeral_simps)
  have h: "init_i2c_state ''/dev/i2c-1'' True True True [(5, btn_south_action)] = Inr ex_i2c_d5"
    "''/dev/i2c-1'' \<noteq> []" "distinct (map fst [(5 :: nat, btn_south_action)])"
    "map_of [(5 :: nat, btn_south_action)] 5 = Some btn_south_action"
    "type btn_south_action = ButtonOrKey" "dev btn_south_action = Gamepad"
    "code btn_south_action = BTN_SOUTH"
    "button_bits (i2c_state ex_state_d5) = button_bits ex_i2c_d5"
    "enabled (i2c_state ex_state_d5)" "active_low ex_env" "0 \<le> ufd_gamepad ex_env"
    "\<forall>fd. uinput_writable ex_env fd"
    by (simp_all add: init_i2c_state_def I2cState_default_def ex_env_def ex_state_def
        ex_state_d5_def ex_i2c_d5_def btn_south_action_def)
  have up: "bit (frame_mask frame_zero) 3 \<noteq> bit (frame_mask frame_bit3) 3"
    and down: "bit (frame_mask frame_bit3) 3 \<noteq> bit (frame_mask frame_zero) 3"
    by (simp_all add: b)
  have t: "token btn_south_action = ''BTN_SOUTH''" "ex_clk 3 = 0" "ufd_gamepad ex_env = 3"
    by (simp_all add: btn_south_action_def ex_clk_def ex_env_def)
  note r = d5_active_low_transition[OF h up, of ex_clk ex_clk]
  note p = d5_active_low_transition[OF h down, of ex_clk ex_clk]
  have r': "\<exists>st1 o1 st2 o2 pre post.
      handle_i2c ex_env ex_clk (int kI2cFrameBytes, frame_zero) ex_state_d5 = Inr (st1, o1) \<and>
      handle_i2c ex_env ex_clk (int kI2cFrameBytes, frame_bit3) st1 = Inr (st2, o2) \<and>
      pin_transitions 5 o2 =
        [Transition 0 (I2cPinOrigin 5) ''BTN_SOUTH'' False (DevCode Gamepad BTN_SOUTH)] \<and>
      o2 = pre @
        [UinputWrite 3 EV_KEY (word_of_int BTN_SOUTH) 0, UinputWrite 3 EV_SYN SYN_REPORT 0,
         Transition 0 (I2cPinOrigin 5) ''BTN_SOUTH'' False (DevCode Gamepad BTN_SOUTH)] @ post"
    using r unfolding b t if_True if_False not_True_eq_False not_False_eq_True by blast
  have p': "\<exists>st1 o1 st2 o2 pre post.
      handle_i2c ex_env ex_clk (int kI2cFrameBytes, frame_bit3) ex_state_d5 = Inr (st1, o1) \<and>
      handle_i2c ex_env ex_clk (int kI2cFrameBytes, frame_zero) st1 = Inr (st2, o2) \<and>
      pin_transitions 5 o2 =
        [Transition 0 (I2cPinOrigin 5) ''BTN_SOUTH'' True (DevCode Gamepad BTN_SOUTH)] \<and>
      o2 = pre @
        [UinputWrite 3 EV_KEY (word_of_int BTN_SOUTH) 1, UinputWrite 3 EV_SYN SYN_REPORT 0,
         Transition 0 (I2cPinOrigin 5) ''BTN_SOUTH'' True (DevCode Gamepad BTN_SOUTH)] @ post"
    using p unfolding b t if_True if_False not_True_eq_False not_False_eq_True by blast
  show ?thesis using h up r' p' by blast
qed

subsection \<open>Startup\<close>

text \<open>
  Claim C7. With no GPIO line acquired, startup ends with exit status 1 after the
  diagnostic when no peripheral input is configured, and prints a warning and goes on
  when one is. A peripheral input is configured when the bus device is given and either
  the analog axes are not disabled or the mapping binds a pin in 2..13. When the bus
  device is given and does not open, or refuses the \<^verbatim>\<open>I2C_SLAVE\<close> request, the process
  dies before the check.
\<close>

theorem no_gpio_lines_startup:
  "(\<not> have_i2c_inputs s \<longrightarrow> startup_check [] s = ExitWith 1 no_inputs_diagnostic) \<and>
   (have_i2c_inputs s \<longrightarrow> startup_check [] s = Proceed i2c_only_warning) \<and>
   no_inputs_diagnostic \<noteq> [] \<and>
   startup_inputs [] path open_ok slave_ok dis m =
     (if path \<noteq> [] \<and> \<not> open_ok then Died (Die (''open('' @ path @ '')''))
      else if path \<noteq> [] \<and> \<not> slave_ok then Died (Die ''I2C_SLAVE'')
      else if path \<noteq> [] \<and> (\<not> dis \<or> (\<exists>kv\<in>set m. 2 \<le> fst kv \<and> fst kv \<le> 13))
      then Proceed i2c_only_warning
      else ExitWith 1 no_inputs_diagnostic)"
proof -
  have a: "startup_inputs [] path open_ok slave_ok dis m =
     (if path \<noteq> [] \<and> \<not> open_ok then Died (Die (''open('' @ path @ '')''))
      else if path \<noteq> [] \<and> \<not> slave_ok then Died (Die ''I2C_SLAVE'')
      else if path \<noteq> [] \<and> (\<not> dis \<or> (\<exists>kv\<in>set m. 2 \<le> fst kv \<and> fst kv \<le> 13))
      then Proceed i2c_only_warning
      else ExitWith 1 no_inputs_diagnostic)"
  proof (cases "init_i2c_state path open_ok slave_ok dis m")
    case (Inl e)
    then show ?thesis
      by (auto simp: startup_inputs_def init_i2c_state_def split: if_splits)
  next
    case (Inr s0)
    from have_i2c_inputs_init[OF Inr] Inr show ?thesis
      by (auto simp: startup_inputs_def startup_check_def init_i2c_state_def split: if_splits)
  qed
  show ?thesis using a by (simp add: startup_check_def no_inputs_diagnostic_def)
qed

theorem no_gpio_lines_startup_witness:
  "\<not> have_i2c_inputs I2cState_default \<and>
   startup_check [] I2cState_default = ExitWith 1 no_inputs_diagnostic \<and>
   have_i2c_inputs ex_i2c_d5 \<and>
   startup_check [] ex_i2c_d5 = Proceed i2c_only_warning \<and>
   startup_inputs [] ''/dev/i2c-1'' True True True [(5, btn_south_action)] = Proceed i2c_only_warning \<and>
   startup_inputs [] [] True True False [(5, btn_south_action)] = ExitWith 1 no_inputs_diagnostic \<and>
   startup_inputs [] ''/dev/i2c-1'' True True True [] = ExitWith 1 no_inputs_diagnostic"
proof -
  have h: "\<not> have_i2c_inputs I2cState_default" "have_i2c_inputs ex_i2c_d5"
    by (simp_all add: have_i2c_inputs_def I2cState_default_def ex_i2c_d5_def)
  from no_gpio_lines_startup[of I2cState_default "''/dev/i2c-1''" True True True "[(5, btn_south_action)]"]
    no_gpio_lines_startup[of ex_i2c_d5 "[]" True True False "[(5, btn_south_action)]"]
    no_gpio_lines_startup[of ex_i2c_d5 "''/dev/i2c-1''" True True True "[]"]
  show ?thesis using h by simp
qed

subsection \<open>Userspace debounce\<close>

text \<open>
  Claim C3, as stated, fails: an edge whose timestamp is earlier than the stored one is
  accepted however close it is. With a window of 1000000 ns, the events at 1000 ns and
  then 999 ns on line 17 are both accepted, one nanosecond apart. And a pair closer than
  the window yields no accepted transition when the line has a record less than a window
  before both: after an accepted transition at 1000 ns, the events at 5000 ns and 6000 ns
  are both dropped.
\<close>

theorem debounce_spacing_counterexample:
  "0 < debounce_ns ex_env \<and>
   map_sum id (accepted_ts 17 \<circ> snd)
     (handle_gpio_events ex_env [ev_fall_1000, ev_rise_999] ex_state) = Inr [1000, 999] \<and>
   \<not> spaced (debounce_ns ex_env) [1000, 999] \<and>
   map_sum id (accepted_ts 17 \<circ> snd)
     (handle_gpio_events ex_env [ev_rise_5000, ev_fall_6000] ex_state_rec) = Inr []"
proof -
  have z: "map_sum id (accepted_ts 17 \<circ> snd)
     (handle_gpio_events ex_env [ev_rise_5000, ev_fall_6000] ex_state_rec) = Inr []"
    by (simp add: handle_gpio_event_def ex_env_def ex_state_def ex_state_rec_def ev_rise_5000_def
        ev_fall_6000_def Let_def debounce_drop_def GPIO_V2_LINE_EVENT_RISING_EDGE_def
        GPIO_V2_LINE_EVENT_FALLING_EDGE_def accepted_ts_def List.map_filter_simps)
  have r: "map_sum id (accepted_ts 17 \<circ> snd)
     (handle_gpio_events ex_env [ev_fall_1000, ev_rise_999] ex_state) = Inr [1000, 999]"
    by (simp add: handle_gpio_event_def ex_env_def ex_state_def ev_fall_1000_def ev_rise_999_def
        ev_rise_5000_def ev_fall_2000000_def btn_south_action_def Let_def debounce_drop_def emit_action_def
        uinput_key_def uinput_emit_def uinput_syn_def seq_out_def
        GPIO_V2_LINE_EVENT_RISING_EDGE_def GPIO_V2_LINE_EVENT_FALLING_EDGE_def
        accepted_ts_def List.map_filter_simps)
  have s: "\<not> spaced (debounce_ns ex_env) [1000, 999]" "0 < debounce_ns ex_env"
    by (simp_all add: spaced_def ex_env_def)
  show ?thesis using r s z by simp
qed

text \<open>
  Claim C3, amended. For a GPIO line with a positive debounce window whose edge events
  carry non-decreasing hardware timestamps, none earlier than the record stored for the
  line, the timestamps of any two consecutive accepted transitions (the stored one
  included) differ by at least the window. A pair of edge events on a mapped line, the
  first of which the debounce does not drop (the line has no record, or the first event is
  earlier than the record or at least a window after it), the second not earlier than the
  first and less than a window after it, yields exactly one accepted transition, the
  first, whose timestamp becomes the record of the line.
\<close>

theorem debounce_spacing_monotone:
  assumes "0 < debounce_ns E" "\<forall>fd. uinput_writable E fd"
    "sorted (map (\<lambda>e. unat (timestamp_ns e)) (filter (\<lambda>e. offset e = off) evs))"
    "\<forall>l. last_accept_ns st off = Some l \<longrightarrow> (\<forall>e\<in>set evs. offset e = off \<longrightarrow> l \<le> timestamp_ns e)"
  shows "(\<exists>st' out. handle_gpio_events E evs st = Inr (st', out) \<and>
        spaced (debounce_ns E)
          (case last_accept_ns st off of None \<Rightarrow> accepted_ts off out
           | Some l \<Rightarrow> l # accepted_ts off out)) \<and>
     (\<forall>e1 e2 act s.
        map_of (gpio_map E) (offset e1) = Some act \<and> offset e2 = offset e1 \<and>
        (id_kind e1 = GPIO_V2_LINE_EVENT_RISING_EDGE \<or> id_kind e1 = GPIO_V2_LINE_EVENT_FALLING_EDGE) \<and>
        \<not> debounce_drop (debounce_ns E) (last_accept_ns s (offset e1)) (timestamp_ns e1) \<and>
        timestamp_ns e1 \<le> timestamp_ns e2 \<and>
        unat (timestamp_ns e2) - unat (timestamp_ns e1) < unat (debounce_ns E) \<longrightarrow>
        (\<exists>s' out. handle_gpio_events E [e1, e2] s = Inr (s', out) \<and>
           accepted_ts (offset e1) out = [timestamp_ns e1] \<and>
           last_accept_ns s' (offset e1) = Some (timestamp_ns e1)))"
proof -
  obtain st' out where h: "handle_gpio_events E evs st = Inr (st', out)"
    using handle_gpio_events_ok[OF assms(2)] by blast
  note a = gpio_run_spaced[OF assms(1) h assms(3,4)]
  have b: "\<exists>s' out. handle_gpio_events E [e1, e2] s = Inr (s', out) \<and>
           accepted_ts (offset e1) out = [timestamp_ns e1] \<and>
           last_accept_ns s' (offset e1) = Some (timestamp_ns e1)"
    if p: "map_of (gpio_map E) (offset e1) = Some act" "offset e2 = offset e1"
      "id_kind e1 = GPIO_V2_LINE_EVENT_RISING_EDGE \<or> id_kind e1 = GPIO_V2_LINE_EVENT_FALLING_EDGE"
      "\<not> debounce_drop (debounce_ns E) (last_accept_ns s (offset e1)) (timestamp_ns e1)"
      "timestamp_ns e1 \<le> timestamp_ns e2"
      "unat (timestamp_ns e2) - unat (timestamp_ns e1) < unat (debounce_ns E)"
    for e1 e2 act s
  proof -
    obtain s1 o1 where h1: "handle_gpio_event E e1 s = Inr (s1, o1)"
      using handle_gpio_event_ok[OF assms(2)] by blast
    from handle_gpio_event_accept[OF p(1,3,4)] h1 have
      "emit_action E act
       (if active_low E then id_kind e1 = GPIO_V2_LINE_EVENT_FALLING_EDGE
        else id_kind e1 = GPIO_V2_LINE_EVENT_RISING_EDGE)
       (timestamp_ns e1) (GpioOrigin (offset e1) (line_name (watched E) (offset e1)))
       (s\<lparr>last_accept_ns := (last_accept_ns s)(offset e1 \<mapsto> timestamp_ns e1)\<rparr>) = Inr (s1, o1)" by simp
    from emit_action_Inr[OF this] have
      l1: "last_accept_ns s1 (offset e2) = Some (timestamp_ns e1)"
      and a1: "accepted_ts (offset e1) o1 = [timestamp_ns e1]"
      using p(2) by (auto simp: accepted_ts_emit)
    have "debounce_drop (debounce_ns E) (last_accept_ns s1 (offset e2)) (timestamp_ns e2)"
      using l1 p(5,6) assms(1) by (simp add: debounce_drop_nat)
    from handle_gpio_event_skip[OF this] h1 a1 l1 p(2) show ?thesis
      by (simp add: accepted_ts_append)
  qed
  show ?thesis using h a b by blast
qed

theorem debounce_spacing_monotone_witness:
  "0 < debounce_ns ex_env \<and> (\<forall>fd. uinput_writable ex_env fd) \<and>
   sorted (map (\<lambda>e. unat (timestamp_ns e))
     (filter (\<lambda>e. offset e = 17) [ev_fall_1000, ev_rise_5000, ev_fall_2000000])) \<and>
   last_accept_ns ex_state 17 = None \<and>
   (\<exists>st' out. handle_gpio_events ex_env [ev_fall_1000, ev_rise_5000, ev_fall_2000000] ex_state =
        Inr (st', out) \<and> spaced (debounce_ns ex_env) (accepted_ts 17 out)) \<and>
   map_of (gpio_map ex_env) (offset ev_fall_2000000) = Some btn_south_action \<and>
   offset ev_rise_2000500 = offset ev_fall_2000000 \<and>
   (id_kind ev_fall_2000000 = GPIO_V2_LINE_EVENT_RISING_EDGE \<or>
    id_kind ev_fall_2000000 = GPIO_V2_LINE_EVENT_FALLING_EDGE) \<and>
   last_accept_ns ex_state_rec (offset ev_fall_2000000) = Some 1000 \<and>
   \<not> debounce_drop (debounce_ns ex_env) (last_accept_ns ex_state_rec (offset ev_fall_2000000))
       (timestamp_ns ev_fall_2000000) \<and>
   timestamp_ns ev_fall_2000000 \<le> timestamp_ns ev_rise_2000500 \<and>
   unat (timestamp_ns ev_rise_2000500) - unat (timestamp_ns ev_fall_2000000)
     < unat (debounce_ns ex_env) \<and>
   (\<exists>s' out. handle_gpio_events ex_env [ev_fall_2000000, ev_rise_2000500] ex_state_rec = Inr (s', out) \<and>
      accepted_ts 17 out = [2000000])"
proof -
  have h: "0 < debounce_ns ex_env" "\<forall>fd. uinput_writable ex_env fd"
    "sorted (map (\<lambda>e. unat (timestamp_ns e))
       (filter (\<lambda>e. offset e = 17) [ev_fall_1000, ev_rise_5000, ev_fall_2000000]))"
    "\<forall>l. last_accept_ns ex_state 17 = Some l \<longrightarrow>
      (\<forall>e\<in>set [ev_fall_1000, ev_rise_5000, ev_fall_2000000]. offset e = 17 \<longrightarrow> l \<le> timestamp_ns e)"
    by (simp_all add: ex_env_def ex_state_def ev_fall_1000_def ev_rise_5000_def ev_fall_2000000_def)
  have p: "map_of (gpio_map ex_env) (offset ev_fall_2000000) = Some btn_south_action"
    "offset ev_rise_2000500 = offset ev_fall_2000000"
    "id_kind ev_fall_2000000 = GPIO_V2_LINE_EVENT_RISING_EDGE \<or>
     id_kind ev_fall_2000000 = GPIO_V2_LINE_EVENT_FALLING_EDGE"
    "\<not> debounce_drop (debounce_ns ex_env) (last_accept_ns ex_state_rec (offset ev_fall_2000000))
       (timestamp_ns ev_fall_2000000)"
    "timestamp_ns ev_fall_2000000 \<le> timestamp_ns ev_rise_2000500"
    "unat (timestamp_ns ev_rise_2000500) - unat (timestamp_ns ev_fall_2000000)
       < unat (debounce_ns ex_env)"
    by (simp_all add: ex_env_def ex_state_def ex_state_rec_def ev_fall_2000000_def
        ev_rise_2000500_def debounce_drop_def)
  have n: "last_accept_ns ex_state 17 = None" "offset ev_fall_2000000 = 17"
    "timestamp_ns ev_fall_2000000 = 2000000"
    "last_accept_ns ex_state_rec (offset ev_fall_2000000) = Some 1000"
    by (simp_all add: ex_state_def ex_state_rec_def ev_fall_2000000_def)
  note t = debounce_spacing_monotone[OF h]
  from t have a: "\<exists>st' out. handle_gpio_events ex_env [ev_fall_1000, ev_rise_5000, ev_fall_2000000] ex_state =
        Inr (st', out) \<and> spaced (debounce_ns ex_env) (accepted_ts 17 out)"
    unfolding n by simp
  from t p have b: "\<exists>s' out. handle_gpio_events ex_env [ev_fall_2000000, ev_rise_2000500] ex_state_rec = Inr (s', out) \<and>
      accepted_ts (offset ev_fall_2000000) out = [timestamp_ns ev_fall_2000000] \<and>
      last_accept_ns s' (offset ev_fall_2000000) = Some (timestamp_ns ev_fall_2000000)"
    by blast
  then have b': "\<exists>s' out. handle_gpio_events ex_env [ev_fall_2000000, ev_rise_2000500] ex_state_rec = Inr (s', out) \<and>
      accepted_ts 17 out = [2000000]"
    unfolding n(2,3) by blast
  show ?thesis using h(1,2,3) p n(1,4) a b' by blast
qed

text \<open>
  Claim C10. An edge event on a mapped line whose timestamp is strictly earlier than the
  stored last-accepted timestamp of the line is accepted, and the record is overwritten
  with the earlier timestamp. An edge event on a mapped line with a record is rejected
  exactly when the window is positive, the new timestamp is greater than or equal to the
  stored one, and their difference is less than the window.
\<close>

theorem earlier_timestamp_accepted:
  assumes "map_of (gpio_map E) (offset e) = Some act"
    "id_kind e = GPIO_V2_LINE_EVENT_RISING_EDGE \<or> id_kind e = GPIO_V2_LINE_EVENT_FALLING_EDGE"
    "last_accept_ns st (offset e) = Some l"
    "\<forall>fd. uinput_writable E fd"
  shows "(timestamp_ns e < l \<longrightarrow>
       (\<exists>st' out. handle_gpio_event E e st = Inr (st', out) \<and>
          last_accept_ns st' = (last_accept_ns st)(offset e \<mapsto> timestamp_ns e) \<and>
          accepted_ts (offset e) out = [timestamp_ns e])) \<and>
     ((handle_gpio_event E e st = Inr (st, [])) =
        (0 < debounce_ns E \<and> l \<le> timestamp_ns e \<and>
         unat (timestamp_ns e) - unat l < unat (debounce_ns E)))"
proof -
  let ?drop = "debounce_drop (debounce_ns E) (last_accept_ns st (offset e)) (timestamp_ns e)"
  have d: "?drop = (0 < debounce_ns E \<and> l \<le> timestamp_ns e \<and>
         unat (timestamp_ns e) - unat l < unat (debounce_ns E))"
    using assms(3) by (simp add: debounce_drop_nat)
  obtain st' out where h: "handle_gpio_event E e st = Inr (st', out)"
    using handle_gpio_event_ok[OF assms(4)] by blast
  have acc: "last_accept_ns st' = (last_accept_ns st)(offset e \<mapsto> timestamp_ns e) \<and>
      accepted_ts (offset e) out = [timestamp_ns e] \<and> out \<noteq> []" if nd: "\<not> ?drop"
  proof -
    from handle_gpio_event_accept[OF assms(1,2) nd] h have
      "emit_action E act
       (if active_low E then id_kind e = GPIO_V2_LINE_EVENT_FALLING_EDGE
        else id_kind e = GPIO_V2_LINE_EVENT_RISING_EDGE)
       (timestamp_ns e) (GpioOrigin (offset e) (line_name (watched E) (offset e)))
       (st\<lparr>last_accept_ns := (last_accept_ns st)(offset e \<mapsto> timestamp_ns e)\<rparr>) = Inr (st', out)" by simp
    from emit_action_Inr[OF this] show ?thesis by (auto simp: accepted_ts_emit)
  qed
  have 1: "timestamp_ns e < l \<longrightarrow>
       (\<exists>st' out. handle_gpio_event E e st = Inr (st', out) \<and>
          last_accept_ns st' = (last_accept_ns st)(offset e \<mapsto> timestamp_ns e) \<and>
          accepted_ts (offset e) out = [timestamp_ns e])"
    using acc h d by auto
  have 2: "(handle_gpio_event E e st = Inr (st, [])) = ?drop"
    using acc h handle_gpio_event_skip[of E st e] by auto
  show ?thesis using 1 2 d by simp
qed

theorem earlier_timestamp_accepted_witness:
  "map_of (gpio_map ex_env) (offset ev_rise_999) = Some btn_south_action \<and>
   (id_kind ev_rise_999 = GPIO_V2_LINE_EVENT_RISING_EDGE \<or>
    id_kind ev_rise_999 = GPIO_V2_LINE_EVENT_FALLING_EDGE) \<and>
   last_accept_ns ex_state_rec (offset ev_rise_999) = Some 1000 \<and>
   (\<forall>fd. uinput_writable ex_env fd) \<and> timestamp_ns ev_rise_999 < 1000 \<and>
   (\<exists>st' out. handle_gpio_event ex_env ev_rise_999 ex_state_rec = Inr (st', out) \<and>
      last_accept_ns st' 17 = Some 999 \<and> accepted_ts 17 out = [999])"
proof -
  have h: "map_of (gpio_map ex_env) (offset ev_rise_999) = Some btn_south_action"
    "id_kind ev_rise_999 = GPIO_V2_LINE_EVENT_RISING_EDGE \<or>
     id_kind ev_rise_999 = GPIO_V2_LINE_EVENT_FALLING_EDGE"
    "last_accept_ns ex_state_rec (offset ev_rise_999) = Some 1000"
    "\<forall>fd. uinput_writable ex_env fd"
    by (simp_all add: ex_env_def ex_state_def ex_state_rec_def ev_rise_999_def)
  have e: "timestamp_ns ev_rise_999 < 1000" "offset ev_rise_999 = 17" "timestamp_ns ev_rise_999 = 999"
    by (simp_all add: ex_env_def ex_state_def ex_state_rec_def ev_rise_999_def)
  from earlier_timestamp_accepted[OF h] e(1)
  have "\<exists>st' out. handle_gpio_event ex_env ev_rise_999 ex_state_rec = Inr (st', out) \<and>
      last_accept_ns st' = (last_accept_ns ex_state_rec)(offset ev_rise_999 \<mapsto> timestamp_ns ev_rise_999) \<and>
      accepted_ts (offset ev_rise_999) out = [timestamp_ns ev_rise_999]"
    by blast
  then have "\<exists>st' out. handle_gpio_event ex_env ev_rise_999 ex_state_rec = Inr (st', out) \<and>
      last_accept_ns st' 17 = Some 999 \<and> accepted_ts 17 out = [999]"
    unfolding e by auto
  with h e show ?thesis by blast
qed

subsection \<open>Auto-assignment\<close>

text \<open>
  Claim C2, as stated, fails. The button cycle has 23 distinct codes (the 13 of the
  table, then \<^verbatim>\<open>BTN_0\<close> to \<^verbatim>\<open>BTN_9\<close>) and then wraps around. With an empty mapping and
  the range 0..23 there are 24 unmapped offsets, more than the table and fewer than the
  iteration cap of 2000; the last one runs into the cap and gets code 263, which offset
  20 already has.
\<close>

theorem auto_assign_codes_counterexample:
  "length (unmapped_candidates 0 23 empty_mapping) = 24 \<and>
   map_option code (map_of (build_gpio_map Buttons 0 23 empty_mapping) 20) = Some 263 \<and>
   map_option code (map_of (build_gpio_map Buttons 0 23 empty_mapping) 23) = Some 263"
  by code_simp

text \<open>
  Claim C2, amended. In button-cycle or key-cycle auto mode, when the number of unmapped
  in-range offsets is at most the number of codes among the distinct codes of the cycle
  (the first 23 of the button sequence, the first 48 of the key sequence) that the
  explicit mappings do not use, every unmapped offset is assigned a code and no two of
  them receive the same code.
\<close>

theorem auto_assign_codes_distinct:
  assumes "mode = Buttons \<and>
       length (unmapped_candidates start end m) \<le> free_codes next_auto_button_code 23 (fst (used_codes m)) \<or>
     mode = Keys \<and>
       length (unmapped_candidates start end m) \<le> free_codes next_auto_key_code 48 (snd (used_codes m))"
  shows "distinct (map (\<lambda>off. map_option code (map_of (build_gpio_map mode start end m) off))
            (unmapped_candidates start end m)) \<and>
     list_all (\<lambda>off. map_of (build_gpio_map mode start end m) off \<noteq> None)
       (unmapped_candidates start end m)"
  using assms
proof
  assume a: "mode = Buttons \<and>
       length (unmapped_candidates start end m) \<le> free_codes next_auto_button_code 23 (fst (used_codes m))"
  have inj: "inj_on next_auto_button_code {0..<int 23}"
    by (rule inj_on_int_range[OF button_cycle_distinct])
  from a have len: "length (filter (\<lambda>x. map_of (gpio m) x = None) (candidates start end))
      \<le> card {i. 0 \<le> i \<and> i < int 23 \<and> next_auto_button_code i \<notin> fst (used_codes m)}"
    by (simp add: unmapped_candidates_def free_codes_card)
  from auto_assign_buttons_fresh[OF inj _ distinct_candidates _ len, of "snd (used_codes m)"] a
  show ?thesis
    by (auto simp: build_gpio_map_def unmapped_candidates_def list_all_iff)
next
  assume a: "mode = Keys \<and>
       length (unmapped_candidates start end m) \<le> free_codes next_auto_key_code 48 (snd (used_codes m))"
  have inj: "inj_on next_auto_key_code {0..<int 48}"
    by (rule inj_on_int_range[OF key_cycle_distinct])
  from a have len: "length (filter (\<lambda>x. map_of (gpio m) x = None) (candidates start end))
      \<le> card {i. 0 \<le> i \<and> i < int 48 \<and> next_auto_key_code i \<notin> snd (used_codes m)}"
    by (simp add: unmapped_candidates_def free_codes_card)
  from auto_assign_keys_fresh[OF inj _ distinct_candidates _ len, of "fst (used_codes m)"] a
  show ?thesis
    by (auto simp: build_gpio_map_def unmapped_candidates_def list_all_iff)
qed

theorem auto_assign_codes_distinct_witness:
  "(Buttons = Buttons \<and>
      length (unmapped_candidates 5 27 default_mapping_from_your_log)
        \<le> free_codes next_auto_button_code 23 (fst (used_codes default_mapping_from_your_log)) \<or>
    Buttons = Keys \<and>
      length (unmapped_candidates 5 27 default_mapping_from_your_log)
        \<le> free_codes next_auto_key_code 48 (snd (used_codes default_mapping_from_your_log))) \<and>
   length (unmapped_candidates 5 27 default_mapping_from_your_log) = 19 \<and>
   distinct (map (\<lambda>off. map_option code
                   (map_of (build_gpio_map Buttons 5 27 default_mapping_from_your_log) off))
      (unmapped_candidates 5 27 default_mapping_from_your_log))"
proof -
  have n: "length (unmapped_candidates 5 27 default_mapping_from_your_log) = 19"
    by code_simp
  have f: "free_codes next_auto_button_code 23 (fst (used_codes default_mapping_from_your_log)) = 22"
    by code_simp
  have h: "Buttons = Buttons \<and>
      length (unmapped_candidates 5 27 default_mapping_from_your_log)
        \<le> free_codes next_auto_button_code 23 (fst (used_codes default_mapping_from_your_log)) \<or>
    Buttons = Keys \<and>
      length (unmapped_candidates 5 27 default_mapping_from_your_log)
        \<le> free_codes next_auto_key_code 48 (snd (used_codes default_mapping_from_your_log))"
    unfolding n f by simp
  from auto_assign_codes_distinct[OF h] h n show ?thesis by blast
qed

end
